theory Spec2Isabelle
  imports Complex_Main
begin

section \<open>JavaScript values\<close>

text \<open>
  The values the loader handles are what \<^verbatim>\<open>Response.json()\<close> yields (null, booleans,
  numbers, strings, arrays, objects), \<^verbatim>\<open>undefined\<close> as the result of reading a member
  that does not exist, and the \<^verbatim>\<open>Date\<close> object built by \<^verbatim>\<open>new Date(v)\<close>, which is kept
  as the value it was built from. A number is the rational a finite double denotes. An object
  is the table of its own members.
\<close>

datatype jsval =
    JUndefined
  | JNull
  | JBool bool
  | JNum rat
  | JStr string
  | JArr "jsval list"
  | JObj "(string \<times> jsval) list"
  | JDate jsval

text \<open>What is thrown here. A \<^verbatim>\<open>catch\<close> clause of the loader can receive the rejection of
  \<^verbatim>\<open>fetch\<close>, the \<^verbatim>\<open>Error("Backend request failed")\<close> thrown by the loader, the rejection of
  \<^verbatim>\<open>json()\<close> on a malformed body, and a TypeError (a member read on null or undefined, a
  call of something that is not a function, a conversion that fails). The last one is the
  error React raises for an object used as a child; it arises in a render only.\<close>

datatype fault = NetworkError | RequestFailed | SyntaxError | TypeError | InvalidChild

text \<open>ToBoolean, as used by \<^verbatim>\<open>if (v)\<close> and \<^verbatim>\<open>v && e\<close>.\<close>

fun truthy :: "jsval \<Rightarrow> bool" where
  "truthy JUndefined = False"
| "truthy JNull = False"
| "truthy (JBool b) = b"
| "truthy (JNum x) = (x \<noteq> 0)"
| "truthy (JStr s) = (s \<noteq> [])"
| "truthy (JArr xs) = True"
| "truthy (JObj ps) = True"
| "truthy (JDate v) = True"

text \<open>The member read \<^verbatim>\<open>v.timestamp\<close>: a TypeError on null and undefined, the own member
  of an object, undefined on every other value.\<close>

fun get_timestamp :: "jsval \<Rightarrow> fault + jsval" where
  "get_timestamp JUndefined = Inl TypeError"
| "get_timestamp JNull = Inl TypeError"
| "get_timestamp (JObj ps) =
     Inr (case map_of ps ''timestamp'' of Some w \<Rightarrow> w | None \<Rightarrow> JUndefined)"
| "get_timestamp v = Inr JUndefined"

text \<open>
  The members of a JSON value are never functions. So ToPrimitive, which \<^verbatim>\<open>new Date(v)\<close>,
  \<^verbatim>\<open>Number(v)\<close>, \<^verbatim>\<open>v * 100\<close>, \<^verbatim>\<open>v > 0\<close> and \<^verbatim>\<open>v - 1\<close> apply to their operand, throws a
  TypeError on an object with an own member \<^verbatim>\<open>toString\<close>: the inherited \<^verbatim>\<open>valueOf\<close> returns the
  object itself, an own \<^verbatim>\<open>valueOf\<close> is not callable, and neither is that \<^verbatim>\<open>toString\<close>. On an
  array it calls \<^verbatim>\<open>join\<close>, which converts every element other than null and undefined to a
  string, and throws where one of them does. It throws on no other value.
\<close>

fun to_primitive_throws :: "jsval \<Rightarrow> bool" where
  "to_primitive_throws (JObj ps) = (map_of ps ''toString'' \<noteq> None)"
| "to_primitive_throws (JArr xs) = list_ex to_primitive_throws xs"
| "to_primitive_throws v = False"

text \<open>\<^verbatim>\<open>new Date(v)\<close>: ToPrimitive, then the reading of a string or the conversion of a
  primitive to a number, which do not throw. The \<^verbatim>\<open>Date\<close> is kept as \<open>JDate v\<close>.\<close>

definition new_date :: "jsval \<Rightarrow> fault + jsval" where
  "new_date v = (if to_primitive_throws v then Inl TypeError else Inr (JDate v))"

text \<open>
  On an array or a string, \<^verbatim>\<open>length\<close> is a natural number and \<^verbatim>\<open>length > 0\<close>,
  \<^verbatim>\<open>length - 1\<close> need no conversion. On an object with an own member named
  \<^verbatim>\<open>length\<close> that member is an arbitrary value \<open>l\<close>, and the language converts it: \<^verbatim>\<open>l > 0\<close> by
  ToPrimitive and ToNumber, \<^verbatim>\<open>obj[l - 1]\<close> by ToPrimitive, ToNumber and ToPropertyKey. Where
  ToPrimitive throws is modelled above. What the conversions return when it does not throw
  (the reading of a string as a number, the printing of a number as a member name) is a
  parameter of the model: two total functions, and nothing below depends on what they
  return.
\<close>

record coercions =
  gt_zero :: "jsval \<Rightarrow> bool"
  pred_key :: "jsval \<Rightarrow> string"

section \<open>Responses, settlements and \<^verbatim>\<open>Promise.all\<close>\<close>

text \<open>A response as the loader sees it: the \<^verbatim>\<open>ok\<close> flag and what \<^verbatim>\<open>json()\<close> settles to
  (\<open>None\<close>: the body is not valid JSON and \<^verbatim>\<open>json()\<close> rejects with a SyntaxError). Reading
  the body of a response that has arrived is taken to settle.\<close>

record response =
  ok :: bool
  body :: "jsval option"

datatype 'a settled = Fulfilled 'a | Rejected fault

text \<open>
  The input of one activation is the schedule of its requests: the settlements of the
  promises returned by \<^verbatim>\<open>fetch\<close>, in the order in which the event loop delivers them, each
  with the position of its promise in the array given to \<^verbatim>\<open>Promise.all\<close>. A request
  that never settles has no entry.
\<close>

type_synonym 'a schedule = "(nat \<times> 'a settled) list"

text \<open>
  \<^verbatim>\<open>Promise.all\<close> fulfils once every promise of the array has fulfilled, with their values in
  array order, and rejects at the first rejection it is told of. The number is how many
  settlements of the schedule had been delivered when the combined promise settled, which is
  when the \<^verbatim>\<open>await\<close> on it resumes.
\<close>

datatype 'a joined = AllFulfilled nat "'a list" | FirstRejected nat fault | NeverSettles

definition all_filled :: "'a option list \<Rightarrow> bool" where
  "all_filled slots = list_all (\<lambda>s. s \<noteq> None) slots"

fun promise_all_loop :: "nat \<Rightarrow> 'a option list \<Rightarrow> 'a schedule \<Rightarrow> 'a joined" where
  "promise_all_loop k slots [] =
     (if all_filled slots then AllFulfilled k (map the slots) else NeverSettles)"
| "promise_all_loop k slots ((i, s) # rest) =
     (if all_filled slots then AllFulfilled k (map the slots)
      else if i < length slots \<and> slots ! i = None then
        (case s of
           Rejected e \<Rightarrow> FirstRejected (Suc k) e
         | Fulfilled v \<Rightarrow> promise_all_loop (Suc k) (slots[i := Some v]) rest)
      else promise_all_loop (Suc k) slots rest)"

definition promise_all :: "nat \<Rightarrow> 'a schedule \<Rightarrow> 'a joined" where
  "promise_all n evs = promise_all_loop 0 (replicate n None) evs"

section \<open>The loader of \<^verbatim>\<open>frontend/src/App.js\<close>\<close>

text \<open>The calls \<^verbatim>\<open>fetchData\<close> makes on the component: the state setters of the three
  versions of the component, and \<^verbatim>\<open>console.error\<close>.\<close>

datatype action =
    SetBestAny jsval
  | SetBestGrand jsval
  | SetLastUpdated jsval
  | SetGames jsval
  | SetBest jsval
  | SetError string
  | SetLoading bool
  | Log fault

text \<open>What one call of \<^verbatim>\<open>fetchData\<close> does: it runs to its end and has made these calls, in
  this order; or its first \<^verbatim>\<open>await\<close> never resumes, and it makes no call at all (every call
  of the source comes after that \<^verbatim>\<open>await\<close>).\<close>

datatype run = Finished "action list" | Hangs

definition generic_message :: string where
  "generic_message = ''Unable to load data. Please try again later.''"

text \<open>Lines 34 to 35: whether \<^verbatim>\<open>historyData.length > 0\<close>, and then
  \<^verbatim>\<open>historyData[historyData.length - 1].timestamp\<close>. \<open>Inl\<close> is a throw, \<open>Inr None\<close> a false
  condition. On an object the comparison converts the own member \<^verbatim>\<open>length\<close> first, and
  throws where ToPrimitive does.\<close>

fun history_latest :: "coercions \<Rightarrow> jsval \<Rightarrow> fault + jsval option" where
  "history_latest rt JUndefined = Inl TypeError"
| "history_latest rt JNull = Inl TypeError"
| "history_latest rt (JArr xs) =
     (if length xs > 0 then map_sum id Some (get_timestamp (xs ! (length xs - 1)))
      else Inr None)"
| "history_latest rt (JStr s) =
     (if length s > 0 then Inr (Some JUndefined) else Inr None)"
| "history_latest rt (JObj ps) =
     (case map_of ps ''length'' of
        None \<Rightarrow> Inr None
      | Some l \<Rightarrow>
          if to_primitive_throws l then Inl TypeError
          else if gt_zero rt l then
            map_sum id Some
              (get_timestamp (case map_of ps (pred_key rt l) of Some v \<Rightarrow> v | None \<Rightarrow> JUndefined))
          else Inr None)"
| "history_latest rt v = Inr None"

text \<open>Lines 34 to 37 up to the setter: the value \<^verbatim>\<open>setLastUpdated\<close> is called with, if it is
  called.\<close>

definition last_updated_of :: "coercions \<Rightarrow> jsval \<Rightarrow> fault + jsval option" where
  "last_updated_of rt historyData =
     (case history_latest rt historyData of
        Inl e \<Rightarrow> Inl e
      | Inr None \<Rightarrow> Inr None
      | Inr (Some latest) \<Rightarrow> map_sum id Some (new_date latest))"

text \<open>The \<^verbatim>\<open>try\<close> block from line 22 on, given the responses the first \<^verbatim>\<open>await\<close> resumed
  with: the \<^verbatim>\<open>ok\<close> test (lines 22 to 23), the join of the three \<^verbatim>\<open>json()\<close> promises (lines 25
  to 29), the two setters (lines 31 to 32) and the history (lines 34 to 37). The result is the
  setter calls made, and the value thrown if the block did not run to its end.\<close>

fun try_block :: "coercions \<Rightarrow> response list \<Rightarrow> action list \<times> fault option" where
  "try_block rt [anyRes, grandRes, histRes] =
     (if \<not> ok anyRes \<or> \<not> ok grandRes \<or> \<not> ok histRes then ([], Some RequestFailed)
      else
        (case (body anyRes, body grandRes, body histRes) of
           (Some anyData, Some grandData, Some historyData) \<Rightarrow>
             (case last_updated_of rt historyData of
                Inl e \<Rightarrow> ([SetBestAny anyData, SetBestGrand grandData], Some e)
              | Inr None \<Rightarrow> ([SetBestAny anyData, SetBestGrand grandData], None)
              | Inr (Some date) \<Rightarrow>
                  ([SetBestAny anyData, SetBestGrand grandData, SetLastUpdated date], None))
         | _ \<Rightarrow> ([], Some SyntaxError)))"
| "try_block rt rs = ([], Some TypeError)"

text \<open>The last equation is for an array of fewer than three responses, where the
  destructuring binds undefined and reading \<^verbatim>\<open>ok\<close> throws; \<open>promise_all 3\<close> never yields
  one, nor a longer one (lemma \<open>promise_all_length\<close>).\<close>

text \<open>The \<^verbatim>\<open>catch\<close> clause (lines 38 to 40) and the \<^verbatim>\<open>finally\<close> clause (lines 41 to 43), and
  the \<^verbatim>\<open>try\<close> statement as a whole, given what its block did: a thrown value runs the
  \<^verbatim>\<open>catch\<close> clause, and the \<^verbatim>\<open>finally\<close> clause runs in both cases. A rejection of the first
  \<^verbatim>\<open>await\<close> is a throw before any setter.\<close>

definition catch_block :: "fault \<Rightarrow> action list" where
  "catch_block err = [Log err, SetError generic_message]"

definition finally_block :: "action list" where
  "finally_block = [SetLoading False]"

definition try_catch_finally :: "action list \<times> fault option \<Rightarrow> action list" where
  "try_catch_finally r = (case r of
      (acts, None) \<Rightarrow> acts @ finally_block
    | (acts, Some err) \<Rightarrow> acts @ catch_block err @ finally_block)"

definition fetchData :: "coercions \<Rightarrow> response schedule \<Rightarrow> run" where
  "fetchData rt evs =
     (case promise_all 3 evs of
        NeverSettles \<Rightarrow> Hangs
      | FirstRejected k err \<Rightarrow> Finished (try_catch_finally ([], Some err))
      | AllFulfilled k rs \<Rightarrow> Finished (try_catch_finally (try_block rt rs)))"

subsection \<open>Component state and render\<close>

text \<open>The five \<^verbatim>\<open>useState\<close> slots of lines 5 to 9 with their initial values; \<open>error\<close> is null
  or a string. A setter replaces its slot; \<^verbatim>\<open>console.error\<close>, and the setters this version
  does not have, leave the state as it is.\<close>

record app_state =
  bestAny :: jsval
  bestGrand :: jsval
  lastUpdated :: jsval
  loading :: bool
  error :: "string option"

definition init :: app_state where
  "init = \<lparr>bestAny = JArr [], bestGrand = JArr [], lastUpdated = JNull,
            loading = True, error = None\<rparr>"

fun dispatch :: "action \<Rightarrow> app_state \<Rightarrow> app_state" where
  "dispatch (SetBestAny v) st = st\<lparr>bestAny := v\<rparr>"
| "dispatch (SetBestGrand v) st = st\<lparr>bestGrand := v\<rparr>"
| "dispatch (SetLastUpdated v) st = st\<lparr>lastUpdated := v\<rparr>"
| "dispatch (SetError m) st = st\<lparr>error := Some m\<rparr>"
| "dispatch (SetLoading b) st = st\<lparr>loading := b\<rparr>"
| "dispatch a st = st"

text \<open>The state of a fresh activation once the calls \<open>acts\<close> have been made. The states an
  activation goes through are those after the prefixes of its calls.\<close>

definition after :: "action list \<Rightarrow> app_state" where
  "after acts = fold dispatch acts init"

text \<open>
  What a render of the component yields: one of its three pages, or a throw, of the
  component function or of React while it renders the children the function returned. A page
  is given by the blocks it is made of and the state slot each block is built from; the
  markup inside a block is not modelled, but whether building it throws is. \<open>TextNode\<close> is
  the text React renders for a falsy number left by \<^verbatim>\<open>v && e\<close>.
\<close>

datatype block =
    Updated jsval
  | AnyTable jsval
  | GrandTable jsval
  | BestCard jsval
  | GamesTable jsval
  | TextNode jsval

datatype view = LoadingView | ErrorView string | ReadyView "block list" | Throws fault

text \<open>The child \<^verbatim>\<open>{v && e}\<close>: \<open>e\<close> when \<open>v\<close> is truthy, else \<open>v\<close> itself, of which React
  renders nothing unless it is a number.\<close>

definition guarded :: "jsval \<Rightarrow> block list \<Rightarrow> block list" where
  "guarded v bs = (if truthy v then bs else case v of JNum x \<Rightarrow> [TextNode v] | _ \<Rightarrow> [])"

text \<open>The member read \<^verbatim>\<open>v.k\<close> on a value that is neither null nor undefined, for a name
  \<open>k\<close> that no prototype defines: the own member of an object, undefined otherwise.\<close>

definition nullish :: "jsval \<Rightarrow> bool" where
  "nullish v = (v = JUndefined \<or> v = JNull)"

fun field :: "jsval \<Rightarrow> string \<Rightarrow> jsval" where
  "field (JObj ps) k = (case map_of ps k of Some w \<Rightarrow> w | None \<Rightarrow> JUndefined)"
| "field v k = JUndefined"

text \<open>
  The call \<^verbatim>\<open>v.toLocaleString()\<close>. It throws a TypeError on null and undefined; on an
  object with an own member \<^verbatim>\<open>toLocaleString\<close>, which is not a function, or with an own member
  \<^verbatim>\<open>toString\<close>, which the inherited method calls; and on an array with an element, other than
  null and undefined, on which the call throws. Numbers, strings and booleans have or
  inherit a method that returns a string.
\<close>

fun to_locale_string_throws :: "jsval \<Rightarrow> bool" where
  "to_locale_string_throws JUndefined = True"
| "to_locale_string_throws JNull = True"
| "to_locale_string_throws (JObj ps) =
     (map_of ps ''toLocaleString'' \<noteq> None \<or> map_of ps ''toString'' \<noteq> None)"
| "to_locale_string_throws (JArr xs) =
     list_ex (\<lambda>e. \<not> nullish e \<and> to_locale_string_throws e) xs"
| "to_locale_string_throws v = False"

text \<open>What React accepts as a child: anything but an object, arrays element by element.\<close>

fun valid_child :: "jsval \<Rightarrow> bool" where
  "valid_child (JObj ps) = False"
| "valid_child (JDate v) = False"
| "valid_child (JArr xs) = list_all valid_child xs"
| "valid_child v = True"

text \<open>\<^verbatim>\<open>v.map(row)\<close>: a TypeError unless \<open>v\<close> is an array, and the throw of the callback on an
  element. The children that the rows hand to React are the members \<open>ks\<close> of each element.\<close>

definition map_throws :: "(jsval \<Rightarrow> bool) \<Rightarrow> jsval \<Rightarrow> bool" where
  "map_throws row v = (case v of JArr xs \<Rightarrow> list_ex row xs | _ \<Rightarrow> True)"

definition row_children :: "string list \<Rightarrow> jsval \<Rightarrow> jsval list" where
  "row_children ks v =
     (case v of JArr xs \<Rightarrow> concat (map (\<lambda>g. map (field g) ks) xs) | _ \<Rightarrow> [])"

text \<open>The rows of the two tables (lines 89 to 96 and 111 to 116): \<^verbatim>\<open>g.name\<close>, which throws on
  a null element, then \<^verbatim>\<open>g.remaining_prizes.toLocaleString()\<close>,
  \<^verbatim>\<open>g.total_prizes.toLocaleString()\<close> and \<^verbatim>\<open>(g.remaining_ratio * 100).toFixed(2)\<close>, or
  \<^verbatim>\<open>g.grand_prizes_remaining.toLocaleString()\<close>.\<close>

definition any_row_throws :: "jsval \<Rightarrow> bool" where
  "any_row_throws g =
     (nullish g \<or> to_locale_string_throws (field g ''remaining_prizes'')
      \<or> to_locale_string_throws (field g ''total_prizes'')
      \<or> to_primitive_throws (field g ''remaining_ratio''))"

definition grand_row_throws :: "jsval \<Rightarrow> bool" where
  "grand_row_throws g =
     (nullish g \<or> to_locale_string_throws (field g ''grand_prizes_remaining''))"

text \<open>What building the two tables throws, if anything: a TypeError while the component
  function runs, else the error of React for a \<^verbatim>\<open>{g.name}\<close> that is an object.\<close>

definition tables_fault :: "jsval \<Rightarrow> jsval \<Rightarrow> fault option" where
  "tables_fault anyData grandData =
     (if map_throws any_row_throws anyData \<or> map_throws grand_row_throws grandData
      then Some TypeError
      else if \<not> list_all valid_child
                 (row_children [''name''] anyData @ row_children [''name''] grandData)
      then Some InvalidChild
      else None)"

text \<open>The page of lines 63 to 126: the header, where a truthy \<open>lastUpdated\<close> that is not a
  \<^verbatim>\<open>Date\<close> has no \<^verbatim>\<open>toLocaleDateString\<close> to call, and the two tables. And the component: the
  test of \<open>loading\<close> (line 49), then the test of \<open>error\<close> (line 56; the empty string is
  falsy), then the page.\<close>

definition ready :: "app_state \<Rightarrow> view" where
  "ready st =
     (if truthy (lastUpdated st) \<and> (case lastUpdated st of JDate v \<Rightarrow> False | _ \<Rightarrow> True)
      then Throws TypeError
      else case tables_fault (bestAny st) (bestGrand st) of
             Some e \<Rightarrow> Throws e
           | None \<Rightarrow>
               ReadyView (guarded (lastUpdated st) [Updated (lastUpdated st)]
                          @ [AnyTable (bestAny st), GrandTable (bestGrand st)]))"

definition App :: "app_state \<Rightarrow> view" where
  "App st =
     (if loading st then LoadingView
      else case error st of
             Some m \<Rightarrow> if m \<noteq> [] then ErrorView m else ready st
           | None \<Rightarrow> ready st)"

text \<open>The slot values a view shows.\<close>

fun payload :: "block \<Rightarrow> jsval" where
  "payload (Updated v) = v"
| "payload (AnyTable v) = v"
| "payload (GrandTable v) = v"
| "payload (BestCard v) = v"
| "payload (GamesTable v) = v"
| "payload (TextNode v) = v"

fun exposed :: "view \<Rightarrow> jsval list" where
  "exposed LoadingView = []"
| "exposed (ErrorView m) = []"
| "exposed (ReadyView bs) = map payload bs"
| "exposed (Throws e) = []"

section \<open>The recommendation version (\<^verbatim>\<open>unnamed/part_000\<close>)\<close>

text \<open>Two requests; the two bodies are read one after the other (lines 25 to 26), so a
  malformed first body throws before the second is read. As above, the last equation is for
  an array that \<open>promise_all 2\<close> never yields.\<close>

fun try_block_rec :: "response list \<Rightarrow> action list \<times> fault option" where
  "try_block_rec [gamesRes, bestRes] =
     (if \<not> ok gamesRes \<or> \<not> ok bestRes then ([], Some RequestFailed)
      else
        (case body gamesRes of
           None \<Rightarrow> ([], Some SyntaxError)
         | Some gamesData \<Rightarrow>
             (case body bestRes of
                None \<Rightarrow> ([], Some SyntaxError)
              | Some bestData \<Rightarrow> ([SetGames gamesData, SetBest bestData], None))))"
| "try_block_rec rs = ([], Some TypeError)"

definition fetchData_rec :: "response schedule \<Rightarrow> run" where
  "fetchData_rec evs =
     (case promise_all 2 evs of
        NeverSettles \<Rightarrow> Hangs
      | FirstRejected k err \<Rightarrow> Finished (try_catch_finally ([], Some err))
      | AllFulfilled k rs \<Rightarrow> Finished (try_catch_finally (try_block_rec rs)))"

text \<open>State and render of this version (lines 5 to 8, 41 to 87).\<close>

record rec_state =
  games :: jsval
  best :: jsval
  loading_rec :: bool
  error_rec :: "string option"

definition init_rec :: rec_state where
  "init_rec = \<lparr>games = JArr [], best = JNull, loading_rec = True, error_rec = None\<rparr>"

fun dispatch_rec :: "action \<Rightarrow> rec_state \<Rightarrow> rec_state" where
  "dispatch_rec (SetGames v) st = st\<lparr>games := v\<rparr>"
| "dispatch_rec (SetBest v) st = st\<lparr>best := v\<rparr>"
| "dispatch_rec (SetError m) st = st\<lparr>error_rec := Some m\<rparr>"
| "dispatch_rec (SetLoading b) st = st\<lparr>loading_rec := b\<rparr>"
| "dispatch_rec a st = st"

definition after_rec :: "action list \<Rightarrow> rec_state" where
  "after_rec acts = fold dispatch_rec acts init_rec"

text \<open>
  The card (lines 53 to 61), built for a truthy \<open>best\<close>:
  \<^verbatim>\<open>best.expected_value?.toFixed(2)\<close> is undefined for a null or undefined member, a string
  for a number, and a TypeError otherwise, as no other value has a \<^verbatim>\<open>toFixed\<close>. Its children
  are three members of \<open>best\<close>. The rows of the table (lines 75 to 83):
  \<^verbatim>\<open>g.name\<close>, which throws on a null element, \<^verbatim>\<open>Number(g.prize_amount)\<close> and
  \<^verbatim>\<open>Number(g.expected_value)\<close>, which throw where ToPrimitive does; three members of \<open>g\<close> are
  children.
\<close>

definition card_throws :: "jsval \<Rightarrow> bool" where
  "card_throws b =
     (case field b ''expected_value'' of
        JUndefined \<Rightarrow> False | JNull \<Rightarrow> False | JNum x \<Rightarrow> False | _ \<Rightarrow> True)"

definition games_row_throws :: "jsval \<Rightarrow> bool" where
  "games_row_throws g =
     (nullish g \<or> to_primitive_throws (field g ''prize_amount'')
      \<or> to_primitive_throws (field g ''expected_value''))"

definition rec_fault :: "jsval \<Rightarrow> jsval \<Rightarrow> fault option" where
  "rec_fault b gs =
     (if (truthy b \<and> card_throws b) \<or> map_throws games_row_throws gs then Some TypeError
      else if \<not> list_all valid_child
                 ((if truthy b
                   then map (field b) [''name'', ''remaining_prizes'', ''grand_prizes_remaining'']
                   else [])
                  @ row_children [''name'', ''remaining_prizes'', ''total_prizes''] gs)
      then Some InvalidChild
      else None)"

definition ready_rec :: "rec_state \<Rightarrow> view" where
  "ready_rec st =
     (case rec_fault (best st) (games st) of
        Some e \<Rightarrow> Throws e
      | None \<Rightarrow> ReadyView (guarded (best st) [BestCard (best st)] @ [GamesTable (games st)]))"

definition App_rec :: "rec_state \<Rightarrow> view" where
  "App_rec st =
     (if loading_rec st then LoadingView
      else case error_rec st of
             Some m \<Rightarrow> if m \<noteq> [] then ErrorView m else ready_rec st
           | None \<Rightarrow> ready_rec st)"

section \<open>The two-table version (\<^verbatim>\<open>unnamed/part_001\<close>)\<close>

text \<open>\<^verbatim>\<open>App.js\<close> without the history request and the \<open>lastUpdated\<close> slot.\<close>

fun try_block_pair :: "response list \<Rightarrow> action list \<times> fault option" where
  "try_block_pair [anyRes, grandRes] =
     (if \<not> ok anyRes \<or> \<not> ok grandRes then ([], Some RequestFailed)
      else
        (case body anyRes of
           None \<Rightarrow> ([], Some SyntaxError)
         | Some anyData \<Rightarrow>
             (case body grandRes of
                None \<Rightarrow> ([], Some SyntaxError)
              | Some grandData \<Rightarrow> ([SetBestAny anyData, SetBestGrand grandData], None))))"
| "try_block_pair rs = ([], Some TypeError)"

definition fetchData_pair :: "response schedule \<Rightarrow> run" where
  "fetchData_pair evs =
     (case promise_all 2 evs of
        NeverSettles \<Rightarrow> Hangs
      | FirstRejected k err \<Rightarrow> Finished (try_catch_finally ([], Some err))
      | AllFulfilled k rs \<Rightarrow> Finished (try_catch_finally (try_block_pair rs)))"

text \<open>State and render of this version (lines 7 to 8 and 5 to 6, 39 to 92).\<close>

record pair_state =
  bestAny_pair :: jsval
  bestGrand_pair :: jsval
  loading_pair :: bool
  error_pair :: "string option"

definition init_pair :: pair_state where
  "init_pair = \<lparr>bestAny_pair = JArr [], bestGrand_pair = JArr [],
                 loading_pair = True, error_pair = None\<rparr>"

fun dispatch_pair :: "action \<Rightarrow> pair_state \<Rightarrow> pair_state" where
  "dispatch_pair (SetBestAny v) st = st\<lparr>bestAny_pair := v\<rparr>"
| "dispatch_pair (SetBestGrand v) st = st\<lparr>bestGrand_pair := v\<rparr>"
| "dispatch_pair (SetError m) st = st\<lparr>error_pair := Some m\<rparr>"
| "dispatch_pair (SetLoading b) st = st\<lparr>loading_pair := b\<rparr>"
| "dispatch_pair a st = st"

definition after_pair :: "action list \<Rightarrow> pair_state" where
  "after_pair acts = fold dispatch_pair acts init_pair"

definition ready_pair :: "pair_state \<Rightarrow> view" where
  "ready_pair st =
     (case tables_fault (bestAny_pair st) (bestGrand_pair st) of
        Some e \<Rightarrow> Throws e
      | None \<Rightarrow> ReadyView [AnyTable (bestAny_pair st), GrandTable (bestGrand_pair st)])"

definition App_pair :: "pair_state \<Rightarrow> view" where
  "App_pair st =
     (if loading_pair st then LoadingView
      else case error_pair st of
             Some m \<Rightarrow> if m \<noteq> [] then ErrorView m else ready_pair st
           | None \<Rightarrow> ready_pair st)"

text \<open>An instance of the conversions for the examples below, none of which reads the
  \<^verbatim>\<open>length\<close> of an object.\<close>

definition example_rt :: coercions where
  "example_rt = \<lparr>gt_zero = (\<lambda>l. False), pred_key = (\<lambda>l. [])\<rparr>"

section \<open>Numbers: rounding to a double, and \<^verbatim>\<open>toFixed\<close>\<close>

text \<open>
  A JavaScript number is an IEEE 754 double. \<open>binary64 x\<close> is the double nearest to the
  rational \<open>x\<close>, ties going to the even significand: what reading the numeric literal \<open>x\<close>
  yields, and what an arithmetic operator yields for the exact result \<open>x\<close>. The unit in the
  last place is \<open>2 ^ (e - 52)\<close> for \<open>2 ^ e \<le> \<bar>x\<bar> < 2 ^ (e + 1)\<close>, with \<open>e\<close> no
  smaller than \<open>- 1022\<close> (the subnormal range); \<open>None\<close> is an infinite result.
\<close>

definition pow2 :: "int \<Rightarrow> rat" where
  "pow2 e = 2 powi e"

definition round_half_even :: "rat \<Rightarrow> int" where
  "round_half_even x =
     (let f = \<lfloor>x\<rfloor>; d = x - of_int f
      in if d < 1 / 2 then f else if 1 / 2 < d then f + 1 else if even f then f else f + 1)"

definition exponent :: "rat \<Rightarrow> int" where
  "exponent a =
     (case find (\<lambda>e. a < pow2 (e + 1)) [- 1022..1023] of Some e \<Rightarrow> e | None \<Rightarrow> 1023)"

definition binary64 :: "rat \<Rightarrow> rat option" where
  "binary64 x =
     (let a = \<bar>x\<bar>; u = pow2 (exponent a - 52); m = of_int (round_half_even (a / u)) * u
      in if pow2 1024 \<le> m then None else Some (sgn x * m))"

text \<open>
  \<^verbatim>\<open>Number.prototype.toFixed(f)\<close> on a finite double \<open>x\<close>: a minus sign for a negative
  \<open>x\<close>; the integer \<open>n\<close> for which \<open>n / 10 ^ f\<close> is nearest to \<open>\<bar>x\<bar>\<close>, the larger one of two;
  its decimal digits, padded with zeros on the left to \<open>f + 1\<close> digits, with a point before
  the last \<open>f\<close>. From \<open>10 ^ 21\<close> on the method hands over to the general conversion of numbers
  to strings, which is not modelled: \<open>None\<close>.
\<close>

definition digit :: "nat \<Rightarrow> char" where
  "digit d = ''0123456789'' ! d"

fun decimal :: "nat \<Rightarrow> string" where
  "decimal n = (if n < 10 then [digit n] else decimal (n div 10) @ [digit (n mod 10)])"

definition toFixed :: "nat \<Rightarrow> rat \<Rightarrow> string option" where
  "toFixed f x =
     (let s = (if x < 0 then ''-'' else ''''); a = \<bar>x\<bar>
      in if 10 ^ 21 \<le> a then None
         else
           let n = nat \<lfloor>a * 10 ^ f + 1 / 2\<rfloor>;
               m = decimal n;
               m = (if f \<noteq> 0 \<and> length m \<le> f
                    then replicate (f + 1 - length m) CHR ''0'' @ m else m);
               m = (if f \<noteq> 0 then take (length m - f) m @ ''.'' @ drop (length m - f) m
                    else m)
           in Some (s @ m))"

text \<open>The cell \<^verbatim>\<open>{(g.remaining_ratio * 100).toFixed(2)}%\<close> of \<^verbatim>\<open>App.js\<close> line 94 and of
  \<^verbatim>\<open>part_001\<close> line 64, for a number \<^verbatim>\<open>g.remaining_ratio\<close>: the product is rounded to a
  double, formatted, and followed by the percent sign. \<open>None\<close> where the product is infinite
  or \<open>toFixed\<close> is not modelled.\<close>

definition remaining_pct :: "rat \<Rightarrow> string option" where
  "remaining_pct remaining_ratio =
     (case binary64 (remaining_ratio * 100) of
        None \<Rightarrow> None
      | Some p \<Rightarrow> map_option (\<lambda>m. m @ ''%'') (toFixed 2 p))"

section \<open>Properties of \<^verbatim>\<open>Promise.all\<close>\<close>

lemma all_filled_nth: "all_filled slots \<longleftrightarrow> (\<forall>i<length slots. slots ! i \<noteq> None)"
  by (simp add: all_filled_def list_all_length)

lemma loop_length:
  "promise_all_loop k slots evs = AllFulfilled k' vs \<Longrightarrow> length vs = length slots"
  by (induction k slots evs rule: promise_all_loop.induct)
     (auto split: if_splits settled.splits)

lemma loop_settles:
  "(\<forall>i<length slots. slots ! i \<noteq> None \<or> i \<in> fst ` set evs)
   \<Longrightarrow> promise_all_loop k slots evs \<noteq> NeverSettles"
proof (induction k slots evs rule: promise_all_loop.induct)
  case (1 k slots)
  then show ?case by (simp add: all_filled_nth)
next
  case (2 k slots i s rest)
  show ?case
  proof (cases "all_filled slots")
    case True
    then show ?thesis by simp
  next
    case nf: False
    show ?thesis
    proof (cases "i < length slots \<and> slots ! i = None")
      case True
      show ?thesis
      proof (cases s)
        case (Fulfilled v)
        have "\<forall>j<length (slots[i := Some v]). (slots[i := Some v]) ! j \<noteq> None \<or> j \<in> fst ` set rest"
          using "2.prems" True by (auto simp: nth_list_update)
        then show ?thesis using "2.IH"(1)[OF nf True Fulfilled] nf True Fulfilled by simp
      next
        case (Rejected e)
        then show ?thesis using nf True by simp
      qed
    next
      case False
      have "\<forall>j<length slots. slots ! j \<noteq> None \<or> j \<in> fst ` set rest"
        using "2.prems" False by auto
      moreover have "promise_all_loop k slots ((i, s) # rest) = promise_all_loop (Suc k) slots rest"
        using nf False by auto
      ultimately show ?thesis using "2.IH"(2)[OF nf False] by simp
    qed
  qed
qed

lemma loop_fulfilled:
  "promise_all_loop k slots evs = AllFulfilled k' vs
   \<Longrightarrow> k \<le> k' \<and> k' \<le> k + length evs \<and>
       (\<forall>i<length slots. slots ! i = Some (vs ! i)
           \<or> (slots ! i = None \<and> (i, Fulfilled (vs ! i)) \<in> set (take (k' - k) evs)))"
proof (induction k slots evs rule: promise_all_loop.induct)
  case (1 k slots)
  then show ?case by (auto simp: all_filled_nth split: if_splits)
next
  case (2 k slots i s rest)
  show ?case
  proof (cases "all_filled slots")
    case True
    then show ?thesis using "2.prems" by (auto simp: all_filled_nth)
  next
    case nf: False
    show ?thesis
    proof (cases "i < length slots \<and> slots ! i = None")
      case True
      show ?thesis
      proof (cases s)
        case (Fulfilled v)
        have eq: "promise_all_loop (Suc k) (slots[i := Some v]) rest = AllFulfilled k' vs"
          using "2.prems" nf True Fulfilled by simp
        note ih = "2.IH"(1)[OF nf True Fulfilled eq]
        have kk: "Suc k \<le> k'" using ih by simp
        then have "k' - k = Suc (k' - Suc k)" by arith
        then have tk: "take (k' - k) ((i, s) # rest) = (i, s) # take (k' - Suc k) rest"
          by simp
        show ?thesis
        proof (intro conjI allI impI)
          show "k \<le> k'" using kk by simp
          show "k' \<le> k + length ((i, s) # rest)" using ih by simp
          fix j assume j: "j < length slots"
          show "slots ! j = Some (vs ! j) \<or>
                slots ! j = None \<and> (j, Fulfilled (vs ! j)) \<in> set (take (k' - k) ((i, s) # rest))"
          proof (cases "j = i")
            case True
            then show ?thesis using ih j \<open>i < length slots \<and> slots ! i = None\<close> Fulfilled tk
              by (auto simp: nth_list_update)
          next
            case False
            then show ?thesis using ih j tk by (auto simp: nth_list_update)
          qed
        qed
      next
        case (Rejected e)
        then show ?thesis using "2.prems" nf True by simp
      qed
    next
      case False
      have eq: "promise_all_loop (Suc k) slots rest = AllFulfilled k' vs"
        using "2.prems" nf False by auto
      note ih = "2.IH"(2)[OF nf False eq]
      have kk: "Suc k \<le> k'" using ih by simp
      then have "k' - k = Suc (k' - Suc k)" by arith
      then have tk: "take (k' - k) ((i, s) # rest) = (i, s) # take (k' - Suc k) rest"
        by simp
      show ?thesis using ih tk by auto
    qed
  qed
qed

lemma loop_rejected:
  "promise_all_loop k slots evs = FirstRejected k' e
   \<Longrightarrow> k < k' \<and> k' \<le> k + length evs \<and>
       (\<exists>i<length slots. evs ! (k' - Suc k) = (i, Rejected e))"
proof (induction k slots evs rule: promise_all_loop.induct)
  case (1 k slots)
  then show ?case by (auto split: if_splits)
next
  case (2 k slots i s rest)
  show ?case
  proof (cases "all_filled slots")
    case True
    then show ?thesis using "2.prems" by auto
  next
    case nf: False
    show ?thesis
    proof (cases "i < length slots \<and> slots ! i = None")
      case True
      show ?thesis
      proof (cases s)
        case (Fulfilled v)
        have eq: "promise_all_loop (Suc k) (slots[i := Some v]) rest = FirstRejected k' e"
          using "2.prems" nf True Fulfilled by simp
        note ih = "2.IH"(1)[OF nf True Fulfilled eq]
        then have "k' - Suc k = Suc (k' - Suc (Suc k))" by auto
        then show ?thesis using ih by auto
      next
        case (Rejected e')
        then show ?thesis using "2.prems" nf True by auto
      qed
    next
      case False
      have eq: "promise_all_loop (Suc k) slots rest = FirstRejected k' e"
        using "2.prems" nf False by auto
      note ih = "2.IH"(2)[OF nf False eq]
      then have "k' - Suc k = Suc (k' - Suc (Suc k))" by auto
      then show ?thesis using ih by auto
    qed
  qed
qed

lemma loop_rejects:
  "distinct (map fst evs) \<Longrightarrow> (i, Rejected e) \<in> set evs \<Longrightarrow> i < length slots
   \<Longrightarrow> slots ! i = None \<Longrightarrow> \<exists>k' e'. promise_all_loop k slots evs = FirstRejected k' e'"
proof (induction k slots evs rule: promise_all_loop.induct)
  case (1 k slots)
  then show ?case by simp
next
  case (2 k slots j s rest)
  have nf: "\<not> all_filled slots" using "2.prems" by (auto simp: all_filled_nth)
  show ?case
  proof (cases "j = i")
    case True
    then have "s = Rejected e" using "2.prems" by (auto simp: image_iff)
    then show ?thesis using nf True "2.prems" by simp
  next
    case ji: False
    then have mem: "(i, Rejected e) \<in> set rest" and d: "distinct (map fst rest)"
      using "2.prems" by auto
    show ?thesis
    proof (cases "j < length slots \<and> slots ! j = None")
      case True
      show ?thesis
      proof (cases s)
        case (Fulfilled v)
        have "(slots[j := Some v]) ! i = None" using ji "2.prems" by (simp add: nth_list_update)
        then show ?thesis
          using "2.IH"(1)[OF nf True Fulfilled d mem] "2.prems" nf True Fulfilled by simp
      next
        case (Rejected e')
        then show ?thesis using nf True by simp
      qed
    next
      case False
      then show ?thesis using "2.IH"(2)[OF nf False d mem] "2.prems" nf by auto
    qed
  qed
qed

lemma promise_all_length:
  "promise_all n evs = AllFulfilled k vs \<Longrightarrow> length vs = n"
  unfolding promise_all_def by (drule loop_length) simp

lemma promise_all_settles:
  "\<forall>i<n. i \<in> fst ` set evs \<Longrightarrow> promise_all n evs \<noteq> NeverSettles"
  unfolding promise_all_def by (rule loop_settles) simp

lemma promise_all_fulfilled:
  assumes "promise_all n evs = AllFulfilled k vs"
  shows "k \<le> length evs" and "\<forall>i<n. (i, Fulfilled (vs ! i)) \<in> set (take k evs)"
  using loop_fulfilled[OF assms[unfolded promise_all_def]] by auto

lemma promise_all_rejected:
  assumes "promise_all n evs = FirstRejected k e"
  shows "0 < k" and "k \<le> length evs" and "\<exists>i<n. evs ! (k - 1) = (i, Rejected e)"
  using loop_rejected[OF assms[unfolded promise_all_def]] by auto

lemma promise_all_rejects:
  "distinct (map fst evs) \<Longrightarrow> (i, Rejected e) \<in> set evs \<Longrightarrow> i < n
   \<Longrightarrow> \<exists>k e'. promise_all n evs = FirstRejected k e'"
  using loop_rejects[of evs i e "replicate n None" 0] by (simp add: promise_all_def)

lemma promise_all_fulfils:
  assumes d: "distinct (map fst evs)"
    and f: "\<forall>i<n. (i, Fulfilled (r i)) \<in> set evs"
  shows "\<exists>k. promise_all n evs = AllFulfilled k (map r [0..<n])"
proof (cases "promise_all n evs")
  case (AllFulfilled k vs)
  have len: "length vs = n" using AllFulfilled by (rule promise_all_length)
  have "vs ! i = r i" if "i < n" for i
  proof -
    have "(i, Fulfilled (vs ! i)) \<in> set evs"
      using promise_all_fulfilled(2)[OF AllFulfilled] that by (auto dest: in_set_takeD)
    moreover have "(i, Fulfilled (r i)) \<in> set evs" using f that by simp
    ultimately have "Fulfilled (vs ! i) = Fulfilled (r i)"
      using d by (rule_tac eq_key_imp_eq_value)
    then show ?thesis by simp
  qed
  then have "vs = map r [0..<n]" using len by (auto intro: nth_equalityI)
  then show ?thesis using AllFulfilled by simp
next
  case (FirstRejected k e)
  then obtain i where i: "i < n" "evs ! (k - 1) = (i, Rejected e)" and k: "0 < k" "k \<le> length evs"
    using promise_all_rejected[OF FirstRejected] by auto
  then have "(i, Rejected e) \<in> set evs" by (metis Suc_pred' Suc_le_lessD nth_mem)
  moreover have "(i, Fulfilled (r i)) \<in> set evs" using f i by simp
  ultimately have "Rejected e = Fulfilled (r i)" using d by (rule_tac eq_key_imp_eq_value)
  then show ?thesis by simp
next
  case NeverSettles
  have "\<forall>i<n. i \<in> fst ` set evs" using f by (force simp: image_iff)
  then show ?thesis using promise_all_settles NeverSettles by blast
qed

lemma upt_3: "[0..<3] = [0, Suc 0, 2]"
  by (simp add: upt_rec numeral_3_eq_3 numeral_2_eq_2)

lemma upt_2: "[0..<2] = [0, Suc 0]"
  by (simp add: upt_rec numeral_2_eq_2)

lemma three_fulfilled:
  assumes "distinct (map fst evs)"
    and "(0, Fulfilled r0) \<in> set evs" "(1, Fulfilled r1) \<in> set evs" "(2, Fulfilled r2) \<in> set evs"
  shows "\<exists>k. promise_all 3 evs = AllFulfilled k [r0, r1, r2]"
proof -
  define r where "r = (\<lambda>i::nat. if i = 0 then r0 else if i = 1 then r1 else r2)"
  have "\<forall>i<3. (i, Fulfilled (r i)) \<in> set evs"
  proof (intro allI impI)
    fix i :: nat assume "i < 3"
    then have "i = 0 \<or> i = 1 \<or> i = 2" by arith
    then show "(i, Fulfilled (r i)) \<in> set evs" using assms by (auto simp: r_def)
  qed
  from promise_all_fulfils[OF assms(1) this] show ?thesis by (simp add: upt_3 r_def)
qed

lemma two_fulfilled:
  assumes "distinct (map fst evs)"
    and "(0, Fulfilled r0) \<in> set evs" "(1, Fulfilled r1) \<in> set evs"
  shows "\<exists>k. promise_all 2 evs = AllFulfilled k [r0, r1]"
proof -
  define r where "r = (\<lambda>i::nat. if i = 0 then r0 else r1)"
  have "\<forall>i<2. (i, Fulfilled (r i)) \<in> set evs"
  proof (intro allI impI)
    fix i :: nat assume "i < 2"
    then have "i = 0 \<or> i = 1" by arith
    then show "(i, Fulfilled (r i)) \<in> set evs" using assms by (auto simp: r_def)
  qed
  from promise_all_fulfils[OF assms(1) this] show ?thesis by (simp add: upt_2 r_def)
qed

text \<open>The combined promise rejects at the first rejection among its promises, and not
  before; it fulfils with the last fulfilment it needs, and not later.\<close>

lemma loop_first_rejection:
  assumes "j < length evs" "evs ! j = (i, Rejected e)" "i < length slots" "slots ! i = None"
    and "i \<notin> fst ` set (take j evs)"
    and "\<forall>j'<j. \<forall>i' e'. evs ! j' = (i', Rejected e') \<longrightarrow> length slots \<le> i'"
  shows "promise_all_loop k slots evs = FirstRejected (k + Suc j) e"
  using assms
proof (induction k slots evs arbitrary: j rule: promise_all_loop.induct)
  case (1 k slots)
  then show ?case by simp
next
  case (2 k slots i0 s rest)
  have nf: "\<not> all_filled slots" using "2.prems"(3,4) by (auto simp: all_filled_nth)
  show ?case
  proof (cases j)
    case 0
    then have "i0 = i" "s = Rejected e" using "2.prems"(2) by simp_all
    then show ?thesis using nf "2.prems"(3,4) 0 by simp
  next
    case (Suc j')
    have j': "j' < length rest" "rest ! j' = (i, Rejected e)"
      using "2.prems"(1,2) Suc by simp_all
    have ne: "i0 \<noteq> i" and notin: "i \<notin> fst ` set (take j' rest)"
      using "2.prems"(5) Suc by auto
    have earlier: "\<forall>j''<j'. \<forall>i' e'. rest ! j'' = (i', Rejected e') \<longrightarrow> length slots \<le> i'"
    proof (intro allI impI)
      fix j'' i' e' assume "j'' < j'" "rest ! j'' = (i', Rejected e')"
      then have "Suc j'' < j" "((i0, s) # rest) ! Suc j'' = (i', Rejected e')"
        using Suc by simp_all
      then show "length slots \<le> i'" using "2.prems"(6) by blast
    qed
    show ?thesis
    proof (cases "i0 < length slots \<and> slots ! i0 = None")
      case True
      have "\<forall>e'. s \<noteq> Rejected e'"
      proof (intro allI notI)
        fix e' assume "s = Rejected e'"
        then have "((i0, s) # rest) ! 0 = (i0, Rejected e')" by simp
        then have "length slots \<le> i0" using "2.prems"(6) Suc by blast
        then show False using True by simp
      qed
      then obtain v where v: "s = Fulfilled v" by (cases s) auto
      have "(slots[i0 := Some v]) ! i = None" using ne "2.prems"(4) by simp
      then have "promise_all_loop (Suc k) (slots[i0 := Some v]) rest
                   = FirstRejected (Suc k + Suc j') e"
        using "2.IH"(1)[OF nf True v j'] "2.prems"(3) notin earlier by simp
      then show ?thesis using nf True v Suc by simp
    next
      case False
      have "promise_all_loop (Suc k) slots rest = FirstRejected (Suc k + Suc j') e"
        using "2.IH"(2)[OF nf False j' "2.prems"(3,4) notin earlier] .
      moreover have "promise_all_loop k slots ((i0, s) # rest)
                       = promise_all_loop (Suc k) slots rest"
        using nf False by auto
      ultimately show ?thesis using Suc by simp
    qed
  qed
qed

lemma promise_all_first_rejection:
  assumes d: "distinct (map fst evs)" and j: "j < length evs"
    and at: "evs ! j = (i, Rejected e)" and i: "i < n"
    and first: "\<forall>j'<j. \<forall>i' e'. evs ! j' = (i', Rejected e') \<longrightarrow> n \<le> i'"
  shows "promise_all n evs = FirstRejected (Suc j) e"
proof -
  have "i \<notin> fst ` set (take j evs)"
  proof
    assume "i \<in> fst ` set (take j evs)"
    then obtain j' where j': "j' < j" "fst (evs ! j') = i"
      using j by (auto simp: in_set_conv_nth)
    then have same: "map fst evs ! j' = map fst evs ! j" using j at by simp
    have "(map fst evs ! j' = map fst evs ! j) = (j' = j)"
      by (rule nth_eq_iff_index_eq[OF d]) (use j j' in simp_all)
    then show False using same j'(1) by simp
  qed
  then show ?thesis
    using loop_first_rejection[of j evs i e "replicate n None" 0] j at i first
    by (simp add: promise_all_def)
qed

lemma promise_all_rejected_first:
  assumes d: "distinct (map fst evs)" and r: "promise_all n evs = FirstRejected k e"
  shows "\<forall>j<k - 1. \<forall>i' e'. evs ! j = (i', Rejected e') \<longrightarrow> n \<le> i'"
proof (rule ccontr)
  assume "\<not> ?thesis"
  then have ex: "\<exists>j. j < k - 1 \<and> (\<exists>i' e'. evs ! j = (i', Rejected e') \<and> i' < n)"
    by (auto simp: not_le)
  define j where "j = (LEAST j. j < k - 1 \<and> (\<exists>i' e'. evs ! j = (i', Rejected e') \<and> i' < n))"
  have jp: "j < k - 1 \<and> (\<exists>i' e'. evs ! j = (i', Rejected e') \<and> i' < n)"
    unfolding j_def using ex by (rule LeastI_ex)
  then obtain i' e' where at: "evs ! j = (i', Rejected e')" "i' < n" by blast
  have least: "\<forall>j'<j. \<forall>i'' e''. evs ! j' = (i'', Rejected e'') \<longrightarrow> n \<le> i''"
  proof (intro allI impI)
    fix j' i'' e'' assume lt: "j' < j" and a: "evs ! j' = (i'', Rejected e'')"
    show "n \<le> i''"
    proof (rule ccontr)
      assume "\<not> n \<le> i''"
      then have "j' < k - 1 \<and> (\<exists>i' e'. evs ! j' = (i', Rejected e') \<and> i' < n)"
        using lt jp a by auto
      then have "j \<le> j'" unfolding j_def by (rule Least_le)
      then show False using lt by simp
    qed
  qed
  have "k \<le> length evs" using promise_all_rejected(2)[OF r] .
  moreover have "j < k - 1" using jp by simp
  ultimately have "j < length evs" by linarith
  then have "promise_all n evs = FirstRejected (Suc j) e'"
    using promise_all_first_rejection[OF d _ at(1) at(2) least] by simp
  then have "Suc j = k" using r by simp
  moreover have "j < k - 1" using jp by simp
  ultimately show False by linarith
qed

lemma loop_minimal:
  "promise_all_loop k slots evs = AllFulfilled k' vs \<Longrightarrow> m < k' - k
   \<Longrightarrow> \<exists>i<length slots. slots ! i = None \<and> (\<forall>v. (i, Fulfilled v) \<notin> set (take m evs))"
proof (induction k slots evs arbitrary: m rule: promise_all_loop.induct)
  case (1 k slots)
  then show ?case by (auto split: if_splits)
next
  case (2 k slots i0 s rest)
  have nf: "\<not> all_filled slots" using "2.prems" by (auto split: if_splits)
  then obtain i1 where i1: "i1 < length slots" "slots ! i1 = None"
    by (auto simp: all_filled_nth)
  show ?case
  proof (cases m)
    case 0
    then show ?thesis using i1 by auto
  next
    case (Suc m')
    show ?thesis
    proof (cases "i0 < length slots \<and> slots ! i0 = None")
      case True
      then obtain v where v: "s = Fulfilled v" using "2.prems"(1) nf by (cases s) auto
      have eq: "promise_all_loop (Suc k) (slots[i0 := Some v]) rest = AllFulfilled k' vs"
        using "2.prems"(1) nf True v by simp
      have "m' < k' - Suc k" using "2.prems"(2) Suc by simp
      from "2.IH"(1)[OF nf True v eq this]
      obtain i where i: "i < length slots" "(slots[i0 := Some v]) ! i = None"
          "\<forall>v'. (i, Fulfilled v') \<notin> set (take m' rest)" by auto
      have "i \<noteq> i0" using i(1,2) by (auto simp: nth_list_update split: if_splits)
      then have "slots ! i = None" using i(2) by simp
      moreover have "\<forall>v'. (i, Fulfilled v') \<notin> set (take m ((i0, s) # rest))"
        using i(3) \<open>i \<noteq> i0\<close> Suc by simp
      ultimately show ?thesis using i(1) by blast
    next
      case False
      have eq: "promise_all_loop (Suc k) slots rest = AllFulfilled k' vs"
        using "2.prems"(1) nf False by auto
      have "m' < k' - Suc k" using "2.prems"(2) Suc by simp
      from "2.IH"(2)[OF nf False eq this]
      obtain i where i: "i < length slots" "slots ! i = None"
          "\<forall>v'. (i, Fulfilled v') \<notin> set (take m' rest)" by auto
      have "i \<noteq> i0" using i(1,2) False by auto
      then have "\<forall>v'. (i, Fulfilled v') \<notin> set (take m ((i0, s) # rest))"
        using i(3) Suc by simp
      then show ?thesis using i(1,2) by blast
    qed
  qed
qed

lemma promise_all_minimal:
  assumes "promise_all n evs = AllFulfilled k rs"
  shows "\<forall>m<k. \<exists>i<n. \<forall>v. (i, Fulfilled v) \<notin> set (take m evs)"
  using loop_minimal[OF assms[unfolded promise_all_def]] by fastforce

section \<open>The shape of a finished run\<close>

lemma try_catch_finally_eq:
  "try_catch_finally (acts, r) =
     acts @ (case r of None \<Rightarrow> [] | Some err \<Rightarrow> [Log err, SetError generic_message])
          @ [SetLoading False]"
  by (simp add: try_catch_finally_def catch_block_def finally_block_def split: option.splits)

lemma length_3E:
  assumes "length vs = 3"
  obtains a b c where "vs = [a, b, c]"
  using assms by (auto simp: numeral_3_eq_3 length_Suc_conv)

lemma length_2E:
  assumes "length vs = 2"
  obtains a b where "vs = [a, b]"
  using assms by (auto simp: numeral_2_eq_2 length_Suc_conv)

lemma last_updated_of_Some:
  assumes "last_updated_of rt h = Inr (Some d)"
  shows "\<exists>t. d = JDate t \<and> history_latest rt h = Inr (Some t) \<and> \<not> to_primitive_throws t"
  using assms
  by (auto simp: last_updated_of_def new_date_def split: sum.splits option.splits if_splits)

lemma try_block_shape:
  "\<exists>a g d. fst (try_block rt [r0, r1, r2]) = []
     \<or> fst (try_block rt [r0, r1, r2]) = [SetBestAny a, SetBestGrand g]
     \<or> fst (try_block rt [r0, r1, r2]) = [SetBestAny a, SetBestGrand g, SetLastUpdated (JDate d)]"
proof (cases "\<exists>a g date. fst (try_block rt [r0, r1, r2])
                 = [SetBestAny a, SetBestGrand g, SetLastUpdated date]")
  case True
  then obtain a g date where t: "fst (try_block rt [r0, r1, r2])
      = [SetBestAny a, SetBestGrand g, SetLastUpdated date]" by blast
  then obtain h where "last_updated_of rt h = Inr (Some date)"
    by (auto split: option.splits sum.splits if_splits)
  then obtain d where "date = JDate d" using last_updated_of_Some by blast
  then show ?thesis using t by blast
next
  case False
  then show ?thesis by (auto split: option.splits sum.splits)
qed

lemma try_block_rec_shape:
  "\<exists>a g. fst (try_block_rec [r0, r1]) = []
     \<or> fst (try_block_rec [r0, r1]) = [SetGames a, SetBest g]"
  by (auto split: option.splits)

text \<open>Every finished run of the loader is a list of data setters, then the catch clause's two calls
  if a fault was thrown, then the finalizer.\<close>

lemma fetchData_shape:
  assumes "fetchData rt evs = Finished acts"
  shows "\<exists>pre a g d. (pre = [] \<or> pre = [SetBestAny a, SetBestGrand g]
              \<or> pre = [SetBestAny a, SetBestGrand g, SetLastUpdated (JDate d)])
          \<and> (acts = pre @ [SetLoading False]
              \<or> (\<exists>err. acts = pre @ [Log err, SetError generic_message, SetLoading False]))"
proof (cases "promise_all 3 evs")
  case (AllFulfilled k vs)
  then obtain r0 r1 r2 where vs: "vs = [r0, r1, r2]"
    using promise_all_length[OF AllFulfilled] by (auto elim: length_3E)
  obtain pre r where t: "try_block rt [r0, r1, r2] = (pre, r)" by (cases "try_block rt [r0, r1, r2]")
  have acts: "acts = try_catch_finally (pre, r)" using assms AllFulfilled vs t by (simp add: fetchData_def)
  obtain a g d where "pre = [] \<or> pre = [SetBestAny a, SetBestGrand g]
     \<or> pre = [SetBestAny a, SetBestGrand g, SetLastUpdated (JDate d)]"
    using try_block_shape[of rt r0 r1 r2] t by auto
  then show ?thesis unfolding acts try_catch_finally_eq by (cases r) auto
next
  case (FirstRejected k e)
  then have "acts = [Log e, SetError generic_message, SetLoading False]"
    using assms by (simp add: fetchData_def try_catch_finally_eq)
  then show ?thesis by auto
next
  case NeverSettles
  then show ?thesis using assms by (simp add: fetchData_def)
qed

lemma fetchData_rec_shape:
  assumes "fetchData_rec evs = Finished acts"
  shows "\<exists>pre a g. (pre = [] \<or> pre = [SetGames a, SetBest g])
          \<and> (acts = pre @ [SetLoading False]
              \<or> (\<exists>err. acts = pre @ [Log err, SetError generic_message, SetLoading False]))"
proof (cases "promise_all 2 evs")
  case (AllFulfilled k vs)
  then obtain r0 r1 where vs: "vs = [r0, r1]"
    using promise_all_length[OF AllFulfilled] by (auto elim: length_2E)
  obtain pre r where t: "try_block_rec [r0, r1] = (pre, r)" by (cases "try_block_rec [r0, r1]")
  have acts: "acts = try_catch_finally (pre, r)" using assms AllFulfilled vs t by (simp add: fetchData_rec_def)
  obtain a g where "pre = [] \<or> pre = [SetGames a, SetBest g]"
    using try_block_rec_shape[of r0 r1] t by auto
  then show ?thesis unfolding acts try_catch_finally_eq by (cases r) auto
next
  case (FirstRejected k e)
  then have "acts = [Log e, SetError generic_message, SetLoading False]"
    using assms by (simp add: fetchData_rec_def try_catch_finally_eq)
  then show ?thesis by auto
next
  case NeverSettles
  then show ?thesis using assms by (simp add: fetchData_rec_def)
qed

lemma fetchData_finishes:
  "\<forall>i<3. i \<in> fst ` set evs \<Longrightarrow> \<exists>acts. fetchData rt evs = Finished acts"
  using promise_all_settles[of 3 evs]
  by (cases "promise_all 3 evs") (auto simp: fetchData_def)

lemma fetchData_rec_finishes:
  "\<forall>i<2. i \<in> fst ` set evs \<Longrightarrow> \<exists>acts. fetchData_rec evs = Finished acts"
  using promise_all_settles[of 2 evs]
  by (cases "promise_all 2 evs") (auto simp: fetchData_rec_def)

lemma fetchData_finalizer:
  assumes "fetchData rt evs = Finished acts"
  shows "\<exists>pre. acts = pre @ finally_block \<and> (\<forall>a\<in>set pre. a \<notin> range SetLoading)"
  using fetchData_shape[OF assms] by (auto simp: finally_block_def)

lemma fetchData_rec_finalizer:
  assumes "fetchData_rec evs = Finished acts"
  shows "\<exists>pre. acts = pre @ finally_block \<and> (\<forall>a\<in>set pre. a \<notin> range SetLoading)"
  using fetchData_rec_shape[OF assms] by (auto simp: finally_block_def)

lemma loading_fold:
  "\<forall>a\<in>set xs. a \<notin> range SetLoading \<Longrightarrow> loading (fold dispatch xs st) = loading st"
proof (induction xs arbitrary: st)
  case Nil
  then show ?case by simp
next
  case (Cons a xs)
  then have "loading (dispatch a st) = loading st" by (cases a) auto
  then show ?case using Cons by simp
qed

lemma loading_rec_fold:
  "\<forall>a\<in>set xs. a \<notin> range SetLoading
   \<Longrightarrow> loading_rec (fold dispatch_rec xs st) = loading_rec st"
proof (induction xs arbitrary: st)
  case Nil
  then show ?case by simp
next
  case (Cons a xs)
  then have "loading_rec (dispatch_rec a st) = loading_rec st" by (cases a) auto
  then show ?case using Cons by simp
qed

lemma loading_until_finalizer:
  assumes "\<forall>a\<in>set pre. a \<notin> range SetLoading"
  shows "\<forall>k<length (pre @ finally_block). loading (after (take k (pre @ finally_block)))"
    and "\<not> loading (after (pre @ finally_block))"
proof -
  show "\<forall>k<length (pre @ finally_block). loading (after (take k (pre @ finally_block)))"
  proof (intro allI impI)
    fix k assume "k < length (pre @ finally_block)"
    then have k: "k \<le> length pre" by (simp add: finally_block_def)
    then have eq: "take k (pre @ finally_block) = take k pre" by simp
    have "\<forall>a\<in>set (take k pre). a \<notin> range SetLoading"
      using assms by (auto dest: in_set_takeD)
    then have "loading (fold dispatch (take k pre) init) = loading init"
      by (rule loading_fold)
    then show "loading (after (take k (pre @ finally_block)))"
      unfolding eq after_def by (simp add: init_def)
  qed
  show "\<not> loading (after (pre @ finally_block))"
    by (simp add: after_def finally_block_def)
qed

lemma loading_rec_until_finalizer:
  assumes "\<forall>a\<in>set pre. a \<notin> range SetLoading"
  shows "\<forall>k<length (pre @ finally_block).
           loading_rec (after_rec (take k (pre @ finally_block)))"
    and "\<not> loading_rec (after_rec (pre @ finally_block))"
proof -
  show "\<forall>k<length (pre @ finally_block).
          loading_rec (after_rec (take k (pre @ finally_block)))"
  proof (intro allI impI)
    fix k assume "k < length (pre @ finally_block)"
    then have k: "k \<le> length pre" by (simp add: finally_block_def)
    then have eq: "take k (pre @ finally_block) = take k pre" by simp
    have "\<forall>a\<in>set (take k pre). a \<notin> range SetLoading"
      using assms by (auto dest: in_set_takeD)
    then have "loading_rec (fold dispatch_rec (take k pre) init_rec) = loading_rec init_rec"
      by (rule loading_rec_fold)
    then show "loading_rec (after_rec (take k (pre @ finally_block)))"
      unfolding eq after_rec_def by (simp add: init_rec_def)
  qed
  show "\<not> loading_rec (after_rec (pre @ finally_block))"
    by (simp add: after_rec_def finally_block_def)
qed

text \<open>The page is a ready view or a throw.\<close>

lemma ready_cases: "(\<exists>bs. ready st = ReadyView bs) \<or> (\<exists>e. ready st = Throws e)"
  by (auto simp: ready_def split: option.splits)

lemma ready_rec_cases: "(\<exists>bs. ready_rec st = ReadyView bs) \<or> (\<exists>e. ready_rec st = Throws e)"
  by (auto simp: ready_rec_def split: option.splits)

lemma ready_not_loading: "ready st \<noteq> LoadingView" "ready_rec st' \<noteq> LoadingView"
  using ready_cases[of st] ready_rec_cases[of st'] by auto

text \<open>The final view of a finished run.\<close>

lemma final_view:
  assumes "fetchData rt evs = Finished acts"
  shows "(\<exists>pre. acts = pre @ finally_block \<and> error (after acts) = None
            \<and> \<not> loading (after acts)
            \<and> (\<forall>a\<in>set pre. a \<notin> range Log \<union> range SetError)
            \<and> App (after acts) = ready (after acts))
       \<or> (\<exists>pre err. acts = pre @ catch_block err @ finally_block
            \<and> error (after acts) = Some generic_message
            \<and> App (after acts) = ErrorView generic_message)"
  using fetchData_shape[OF assms]
  by (auto simp: finally_block_def catch_block_def after_def init_def App_def
      generic_message_def)


lemma history_success:
  assumes "distinct (map fst evs)"
    and "(0, Fulfilled \<lparr>ok = True, body = Some anyData\<rparr>) \<in> set evs"
    and "(1, Fulfilled \<lparr>ok = True, body = Some grandData\<rparr>) \<in> set evs"
    and "(2, Fulfilled \<lparr>ok = True, body = Some historyData\<rparr>) \<in> set evs"
  shows "fetchData rt evs =
     Finished (try_catch_finally (case last_updated_of rt historyData of
          Inl e \<Rightarrow> ([SetBestAny anyData, SetBestGrand grandData], Some e)
        | Inr None \<Rightarrow> ([SetBestAny anyData, SetBestGrand grandData], None)
        | Inr (Some date) \<Rightarrow>
            ([SetBestAny anyData, SetBestGrand grandData, SetLastUpdated date], None)))"
proof -
  obtain k where "promise_all 3 evs = AllFulfilled k
      [\<lparr>ok = True, body = Some anyData\<rparr>, \<lparr>ok = True, body = Some grandData\<rparr>,
       \<lparr>ok = True, body = Some historyData\<rparr>]"
    using three_fulfilled[OF assms] by blast
  then show ?thesis by (simp add: fetchData_def)
qed

lemmas run_simps = fetchData_def fetchData_rec_def fetchData_pair_def promise_all_def
  numeral_3_eq_3 numeral_2_eq_2 all_filled_def try_catch_finally_eq
  last_updated_of_def new_date_def

section \<open>Rounding to a double and \<^verbatim>\<open>toFixed\<close>\<close>

lemma pow2_mono: "e \<le> e' \<Longrightarrow> pow2 e \<le> pow2 e'"
  unfolding pow2_def by (rule power_int_increasing) simp_all

lemma find_upto:
  assumes "lo \<le> e" "e \<le> hi" "P e" "\<forall>e'. lo \<le> e' \<and> e' < e \<longrightarrow> \<not> P e'"
  shows "find P [lo..hi] = Some e"
proof -
  let ?i = "nat (e - lo)"
  have len: "?i < length [lo..hi]" using assms by simp
  have nth: "[lo..hi] ! ?i = e" using assms by (simp add: nth_upto)
  have "\<not> P ([lo..hi] ! j)" if "j < ?i" for j
  proof -
    have lt: "lo + int j < e" using that by arith
    then have "lo + int j \<le> hi" using assms(2) by arith
    then have "[lo..hi] ! j = lo + int j" by (rule nth_upto)
    then show ?thesis using assms(4) lt by simp
  qed
  then have "?i < length [lo..hi] \<and> P ([lo..hi] ! ?i) \<and> e = [lo..hi] ! ?i
      \<and> (\<forall>j<?i. \<not> P ([lo..hi] ! j))"
    using len nth assms(3) by simp
  then show ?thesis unfolding find_Some_iff by (rule_tac x = "?i" in exI)
qed

lemma exponent_eq:
  assumes "- 1022 \<le> e" "e \<le> 1023" "pow2 e \<le> a" "a < pow2 (e + 1)"
  shows "exponent a = e"
proof -
  have "\<not> a < pow2 (e' + 1)" if "e' < e" for e'
  proof -
    have "pow2 (e' + 1) \<le> pow2 e" using that by (intro pow2_mono) simp
    then show ?thesis using assms(3) by simp
  qed
  then have "find (\<lambda>e. a < pow2 (e + 1)) [- 1022..1023] = Some e"
    using assms by (intro find_upto) auto
  then show ?thesis unfolding exponent_def by (simp only: option.case)
qed

lemma round_half_even_eq:
  assumes "of_int m - 1 / 2 < x" "x < of_int m + 1 / 2"
  shows "round_half_even x = m"
proof (cases "of_int m \<le> x")
  case True
  then have f: "\<lfloor>x\<rfloor> = m" using assms by (intro floor_unique) auto
  show ?thesis using assms True by (simp add: round_half_even_def f Let_def)
next
  case False
  then have f: "\<lfloor>x\<rfloor> = m - 1" using assms by (intro floor_unique) auto
  show ?thesis using assms False by (simp add: round_half_even_def f Let_def)
qed

lemma binary64_eq:
  assumes "0 < x" "- 1022 \<le> e" "e \<le> 1023" "pow2 e \<le> x" "x < pow2 (e + 1)"
    and "of_int m - 1 / 2 < x / pow2 (e - 52)" "x / pow2 (e - 52) < of_int m + 1 / 2"
    and "of_int m * pow2 (e - 52) = y" "y < pow2 1024"
  shows "binary64 x = Some y"
proof -
  have ax: "\<bar>x\<bar> = x" and sx: "sgn x = 1" using assms(1) by simp_all
  have e: "exponent x = e" using assms(2-5) by (rule exponent_eq)
  have r: "round_half_even (x / pow2 (e - 52)) = m"
    using assms(6,7) by (rule round_half_even_eq)
  show ?thesis unfolding binary64_def ax sx e Let_def r using assms(8,9) by simp
qed

lemma double_of_1234: "binary64 (1234 / 10000) = Some (8891907104280307 / 72057594037927936)"
  by (rule binary64_eq[where e = "- 4" and m = 8891907104280307])
     (simp_all add: pow2_def power_int_minus)

lemma double_of_product: "binary64 (8891907104280307 / 72057594037927936 * 100)
             = Some (3473401212609495 / 281474976710656)"
  by (rule binary64_eq[where e = 3 and m = 6946802425218990])
     (simp_all add: pow2_def power_int_minus)

lemma decimal_1234: "decimal 1234 = ''1234''"
  by (simp add: digit_def)

lemma toFixed_product: "toFixed 2 (3473401212609495 / 281474976710656) = Some ''12.34''"
proof -
  have "\<lfloor>(3473401212609495 / 281474976710656 :: rat) * 10 ^ 2 + 1 / 2\<rfloor> = 1234"
    by (rule floor_unique) simp_all
  then have n: "nat \<lfloor>\<bar>3473401212609495 / 281474976710656 :: rat\<bar> * 10 ^ 2 + 1 / 2\<rfloor> = 1234"
    by simp
  have small: "\<not> 10 ^ 21 \<le> \<bar>3473401212609495 / 281474976710656 :: rat\<bar>" by simp
  show ?thesis unfolding toFixed_def Let_def n decimal_1234 using small by simp
qed

text \<open>Two bodies of the shape the tables read, for the examples below.\<close>

lemma example_tables:
  "tables_fault
     (JArr [JObj [(''name'', JStr ''A''), (''remaining_prizes'', JNum 5),
                  (''total_prizes'', JNum 10), (''remaining_ratio'', JNum (1 / 2))]])
     (JArr [JObj [(''name'', JStr ''A''), (''grand_prizes_remaining'', JNum 1)]]) = None"
  by (simp add: tables_fault_def map_throws_def row_children_def any_row_throws_def
      grand_row_throws_def nullish_def)

section \<open>The join of the requests\<close>

text \<open>
  C1, as the specification states it, says that the loader stays suspended until every
  request has settled, whatever its outcome. \<^verbatim>\<open>Promise.all\<close> does not wait that long: with
  the settlements delivered in the order request 1 rejected, request 0 fulfilled, request 2
  fulfilled, the combined promise is rejected after the first of them, and the loader runs
  its \<^verbatim>\<open>catch\<close> and \<^verbatim>\<open>finally\<close> clauses then. It also finishes when the other two requests
  never settle at all.
\<close>

theorem join_resumes_at_first_rejection:
  "promise_all 3
     [(1, Rejected NetworkError),
      (0, Fulfilled \<lparr>ok = True, body = Some (JArr [])\<rparr>),
      (2, Fulfilled \<lparr>ok = True, body = Some (JArr [])\<rparr>)] = FirstRejected 1 NetworkError
   \<and> fetchData example_rt
     [(1, Rejected NetworkError),
      (0, Fulfilled \<lparr>ok = True, body = Some (JArr [])\<rparr>),
      (2, Fulfilled \<lparr>ok = True, body = Some (JArr [])\<rparr>)]
     = Finished [Log NetworkError, SetError generic_message, SetLoading False]
   \<and> fetchData example_rt [(1, Rejected NetworkError)]
     = Finished [Log NetworkError, SetError generic_message, SetLoading False]
   \<and> fetchData_rec [(1, Rejected NetworkError)]
     = Finished [Log NetworkError, SetError generic_message, SetLoading False]"
  by (simp add: fetchData_def fetchData_rec_def promise_all_def numeral_3_eq_3 numeral_2_eq_2
      all_filled_def try_catch_finally_eq)

text \<open>
  C1, amended: in each activation the loader gives all of its \<^verbatim>\<open>fetch\<close> promises to one
  \<^verbatim>\<open>Promise.all\<close> and suspends on it; each promise settles once. A finished run is one of
  two kinds. Either every request had fulfilled when the loader resumed: each position has
  a fulfilment among the \<open>k\<close> settlements delivered by then and some position has none among
  fewer, and only then is the batch evaluated by the \<^verbatim>\<open>try\<close> block. Or the loader resumed at
  a rejection, the \<open>k\<close>-th settlement, which is the first rejection of one of its requests,
  and went to the \<^verbatim>\<open>catch\<close> clause with that fault without evaluating the batch. A
  non-success status is a fulfilment: when every request fulfils, whatever the \<^verbatim>\<open>ok\<close> flags,
  the loader waits for all of them. A rejection makes the loader resume: if settlement
  \<open>j + 1\<close> is the first rejection of one of its requests, the loader resumes there, whatever
  follows and whether or not the other requests ever settle. The same holds for the two
  requests of the recommendation version.
\<close>

theorem join_waits_for_all_or_first_rejection:
  "(distinct (map fst evs) \<and> fetchData rt evs = Finished acts \<longrightarrow>
      (\<exists>k rs. promise_all 3 evs = AllFulfilled k rs \<and> k \<le> length evs
          \<and> (\<forall>i<3. (i, Fulfilled (rs ! i)) \<in> set (take k evs))
          \<and> (\<forall>m<k. \<exists>i<3. \<forall>v. (i, Fulfilled v) \<notin> set (take m evs))
          \<and> acts = try_catch_finally (try_block rt rs))
    \<or> (\<exists>k err. promise_all 3 evs = FirstRejected k err \<and> 0 < k \<and> k \<le> length evs
          \<and> (\<exists>i<3. evs ! (k - 1) = (i, Rejected err))
          \<and> (\<forall>j<k - 1. \<forall>i e. evs ! j = (i, Rejected e) \<longrightarrow> 3 \<le> i)
          \<and> acts = catch_block err @ finally_block))
 \<and> (distinct (map fst evs') \<and> fetchData_rec evs' = Finished acts' \<longrightarrow>
      (\<exists>k rs. promise_all 2 evs' = AllFulfilled k rs \<and> k \<le> length evs'
          \<and> (\<forall>i<2. (i, Fulfilled (rs ! i)) \<in> set (take k evs'))
          \<and> (\<forall>m<k. \<exists>i<2. \<forall>v. (i, Fulfilled v) \<notin> set (take m evs'))
          \<and> acts' = try_catch_finally (try_block_rec rs))
    \<or> (\<exists>k err. promise_all 2 evs' = FirstRejected k err \<and> 0 < k \<and> k \<le> length evs'
          \<and> (\<exists>i<2. evs' ! (k - 1) = (i, Rejected err))
          \<and> (\<forall>j<k - 1. \<forall>i e. evs' ! j = (i, Rejected e) \<longrightarrow> 2 \<le> i)
          \<and> acts' = catch_block err @ finally_block))
 \<and> (distinct (map fst evs'') \<and> (\<forall>i<3. (i, Fulfilled (r i)) \<in> set evs'') \<longrightarrow>
      (\<exists>k. promise_all 3 evs'' = AllFulfilled k [r 0, r 1, r 2]
          \<and> fetchData rt evs'' = Finished (try_catch_finally (try_block rt [r 0, r 1, r 2]))))
 \<and> (distinct (map fst sched) \<and> j < length sched \<and> sched ! j = (i, Rejected e) \<and> i < 3
      \<and> (\<forall>j'<j. \<forall>i' e'. sched ! j' = (i', Rejected e') \<longrightarrow> 3 \<le> i') \<longrightarrow>
      promise_all 3 sched = FirstRejected (Suc j) e
      \<and> fetchData rt sched = Finished (catch_block e @ finally_block))
 \<and> (distinct (map fst sched') \<and> j' < length sched' \<and> sched' ! j' = (i', Rejected e')
      \<and> i' < 2 \<and> (\<forall>l<j'. \<forall>i e. sched' ! l = (i, Rejected e) \<longrightarrow> 2 \<le> i) \<longrightarrow>
      promise_all 2 sched' = FirstRejected (Suc j') e'
      \<and> fetchData_rec sched' = Finished (catch_block e' @ finally_block))"
proof (intro conjI impI)
  assume a: "distinct (map fst evs) \<and> fetchData rt evs = Finished acts"
  then have d: "distinct (map fst evs)" and run: "fetchData rt evs = Finished acts" by simp_all
  show "(\<exists>k rs. promise_all 3 evs = AllFulfilled k rs \<and> k \<le> length evs
          \<and> (\<forall>i<3. (i, Fulfilled (rs ! i)) \<in> set (take k evs))
          \<and> (\<forall>m<k. \<exists>i<3. \<forall>v. (i, Fulfilled v) \<notin> set (take m evs))
          \<and> acts = try_catch_finally (try_block rt rs))
    \<or> (\<exists>k err. promise_all 3 evs = FirstRejected k err \<and> 0 < k \<and> k \<le> length evs
          \<and> (\<exists>i<3. evs ! (k - 1) = (i, Rejected err))
          \<and> (\<forall>j<k - 1. \<forall>i e. evs ! j = (i, Rejected e) \<longrightarrow> 3 \<le> i)
          \<and> acts = catch_block err @ finally_block)"
  proof (cases "promise_all 3 evs")
    case (AllFulfilled k rs)
    then have "acts = try_catch_finally (try_block rt rs)" using run by (simp add: fetchData_def)
    then show ?thesis
      using AllFulfilled promise_all_fulfilled[OF AllFulfilled]
        promise_all_minimal[OF AllFulfilled] by blast
  next
    case (FirstRejected k err)
    then have "acts = catch_block err @ finally_block"
      using run by (simp add: fetchData_def try_catch_finally_def)
    then show ?thesis
      using FirstRejected promise_all_rejected[OF FirstRejected]
        promise_all_rejected_first[OF d FirstRejected] by blast
  next
    case NeverSettles
    then show ?thesis using run by (simp add: fetchData_def)
  qed
next
  assume a: "distinct (map fst evs') \<and> fetchData_rec evs' = Finished acts'"
  then have d: "distinct (map fst evs')" and run: "fetchData_rec evs' = Finished acts'"
    by simp_all
  show "(\<exists>k rs. promise_all 2 evs' = AllFulfilled k rs \<and> k \<le> length evs'
          \<and> (\<forall>i<2. (i, Fulfilled (rs ! i)) \<in> set (take k evs'))
          \<and> (\<forall>m<k. \<exists>i<2. \<forall>v. (i, Fulfilled v) \<notin> set (take m evs'))
          \<and> acts' = try_catch_finally (try_block_rec rs))
    \<or> (\<exists>k err. promise_all 2 evs' = FirstRejected k err \<and> 0 < k \<and> k \<le> length evs'
          \<and> (\<exists>i<2. evs' ! (k - 1) = (i, Rejected err))
          \<and> (\<forall>j<k - 1. \<forall>i e. evs' ! j = (i, Rejected e) \<longrightarrow> 2 \<le> i)
          \<and> acts' = catch_block err @ finally_block)"
  proof (cases "promise_all 2 evs'")
    case (AllFulfilled k rs)
    then have "acts' = try_catch_finally (try_block_rec rs)"
      using run by (simp add: fetchData_rec_def)
    then show ?thesis
      using AllFulfilled promise_all_fulfilled[OF AllFulfilled]
        promise_all_minimal[OF AllFulfilled] by blast
  next
    case (FirstRejected k err)
    then have "acts' = catch_block err @ finally_block"
      using run by (simp add: fetchData_rec_def try_catch_finally_def)
    then show ?thesis
      using FirstRejected promise_all_rejected[OF FirstRejected]
        promise_all_rejected_first[OF d FirstRejected] by blast
  next
    case NeverSettles
    then show ?thesis using run by (simp add: fetchData_rec_def)
  qed
next
  assume "distinct (map fst evs'') \<and> (\<forall>i<3. (i, Fulfilled (r i)) \<in> set evs'')"
  then obtain k where "promise_all 3 evs'' = AllFulfilled k [r 0, r 1, r 2]"
    using promise_all_fulfils[of evs'' 3 r] by (auto simp: upt_3)
  then show "\<exists>k. promise_all 3 evs'' = AllFulfilled k [r 0, r 1, r 2]
          \<and> fetchData rt evs'' = Finished (try_catch_finally (try_block rt [r 0, r 1, r 2]))"
    by (simp add: fetchData_def)
next
  assume a: "distinct (map fst sched) \<and> j < length sched \<and> sched ! j = (i, Rejected e)
      \<and> i < 3 \<and> (\<forall>j'<j. \<forall>i' e'. sched ! j' = (i', Rejected e') \<longrightarrow> 3 \<le> i')"
  then have p: "promise_all 3 sched = FirstRejected (Suc j) e"
    by (intro promise_all_first_rejection) auto
  then show "promise_all 3 sched = FirstRejected (Suc j) e" .
  show "fetchData rt sched = Finished (catch_block e @ finally_block)"
    using p by (simp add: fetchData_def try_catch_finally_def)
next
  assume a: "distinct (map fst sched') \<and> j' < length sched' \<and> sched' ! j' = (i', Rejected e')
      \<and> i' < 2 \<and> (\<forall>l<j'. \<forall>i e. sched' ! l = (i, Rejected e) \<longrightarrow> 2 \<le> i)"
  then have p: "promise_all 2 sched' = FirstRejected (Suc j') e'"
    by (intro promise_all_first_rejection) auto
  then show "promise_all 2 sched' = FirstRejected (Suc j') e'" .
  show "fetchData_rec sched' = Finished (catch_block e' @ finally_block)"
    using p by (simp add: fetchData_rec_def try_catch_finally_def)
qed

theorem join_waits_for_all_or_first_rejection_witness:
  "(\<exists>k. promise_all 3
        [(1, Rejected NetworkError),
         (0, Fulfilled \<lparr>ok = True, body = Some (JArr [])\<rparr>),
         (2, Fulfilled \<lparr>ok = True, body = Some (JArr [])\<rparr>)] = FirstRejected k NetworkError
        \<and> k = 1)
 \<and> (\<exists>k rs. promise_all 2
        [(1, Fulfilled \<lparr>ok = False, body = None\<rparr>),
         (0, Fulfilled \<lparr>ok = True, body = Some (JArr [])\<rparr>)] = AllFulfilled k rs \<and> k = 2)
 \<and> (\<exists>k. promise_all 3
        [(2, Fulfilled \<lparr>ok = True, body = Some (JArr [])\<rparr>),
         (0, Fulfilled \<lparr>ok = False, body = None\<rparr>),
         (1, Fulfilled \<lparr>ok = True, body = Some (JArr [])\<rparr>)]
       = AllFulfilled k [\<lparr>ok = False, body = None\<rparr>, \<lparr>ok = True, body = Some (JArr [])\<rparr>,
                         \<lparr>ok = True, body = Some (JArr [])\<rparr>])
 \<and> promise_all 3
        [(0, Fulfilled \<lparr>ok = True, body = Some (JArr [])\<rparr>),
         (2, Rejected NetworkError),
         (1, Rejected TypeError)] = FirstRejected 2 NetworkError
 \<and> fetchData_rec
        [(0, Fulfilled \<lparr>ok = True, body = Some (JArr [])\<rparr>),
         (1, Rejected NetworkError)] = Finished (catch_block NetworkError @ finally_block)"
proof -
  let ?ok = "Fulfilled \<lparr>ok = True, body = Some (JArr [])\<rparr>"
  let ?E = "[(1::nat, Rejected NetworkError), (0, ?ok), (2, ?ok)]"
  let ?E' = "[(1::nat, Fulfilled \<lparr>ok = False, body = None\<rparr>), (0, ?ok)]"
  let ?E'' = "[(2::nat, ?ok), (0, Fulfilled \<lparr>ok = False, body = None\<rparr>), (1, ?ok)]"
  let ?r = "\<lambda>i::nat. [\<lparr>ok = False, body = None\<rparr>, \<lparr>ok = True, body = Some (JArr [])\<rparr>,
                         \<lparr>ok = True, body = Some (JArr [])\<rparr>] ! i"
  let ?S = "[(0::nat, ?ok), (2, Rejected NetworkError), (1, Rejected TypeError)]"
  let ?S' = "[(0::nat, ?ok), (1, Rejected NetworkError)]"
  have r1: "distinct (map fst ?E) \<and> fetchData example_rt ?E
              = Finished [Log NetworkError, SetError generic_message, SetLoading False]"
    by (simp add: run_simps)
  have r2: "distinct (map fst ?E') \<and> fetchData_rec ?E'
              = Finished [Log RequestFailed, SetError generic_message, SetLoading False]"
    by (simp add: run_simps)
  have r3: "distinct (map fst ?E'') \<and> (\<forall>i<3. (i, Fulfilled (?r i)) \<in> set ?E'')"
    by (simp add: numeral_3_eq_3 less_Suc_eq)
  have r4: "distinct (map fst ?S) \<and> 1 < length ?S \<and> ?S ! 1 = (2, Rejected NetworkError)
      \<and> (2::nat) < 3 \<and> (\<forall>j'<1. \<forall>i' e'. ?S ! j' = (i', Rejected e') \<longrightarrow> 3 \<le> i')"
    by simp
  have r5: "distinct (map fst ?S') \<and> 1 < length ?S' \<and> ?S' ! 1 = (1, Rejected NetworkError)
      \<and> (1::nat) < 2 \<and> (\<forall>l<1. \<forall>i e. ?S' ! l = (i, Rejected e) \<longrightarrow> 2 \<le> i)"
    by simp
  note inst = join_waits_for_all_or_first_rejection[of ?E example_rt
        "[Log NetworkError, SetError generic_message, SetLoading False]" ?E'
        "[Log RequestFailed, SetError generic_message, SetLoading False]" ?E'' ?r
        ?S 1 2 NetworkError ?S' 1 1 NetworkError]
  have c4: "promise_all 3 ?S = FirstRejected 2 NetworkError"
    using inst r4 by (simp del: promise_all_loop.simps)
  have c5: "fetchData_rec ?S' = Finished (catch_block NetworkError @ finally_block)"
    using inst r5 by (simp del: promise_all_loop.simps)
  show ?thesis using inst r1 r2 r3 c4 c5 by (simp add: run_simps)
qed

section \<open>A failed request\<close>

text \<open>
  C2: when the promises settle once each and one of the three requests is rejected (a network
  fault), or one of them is fulfilled with a response that is not \<^verbatim>\<open>ok\<close> and all three
  settle, the run finishes with the \<^verbatim>\<open>catch\<close> clause and the finalizer only. The final view
  is the error view with the fixed message, it shows no slot value, and the data slots still
  hold their initial values.
\<close>

theorem failure_exposes_no_data:
  assumes d: "distinct (map fst evs)" and mem: "(i, s) \<in> set evs" and i: "i < 3"
    and bad: "(\<exists>e. s = Rejected e)
              \<or> ((\<exists>r. s = Fulfilled r \<and> \<not> ok r) \<and> (\<forall>j<3. j \<in> fst ` set evs))"
  shows "\<exists>err. fetchData rt evs = Finished (catch_block err @ finally_block)
           \<and> App (after (catch_block err @ finally_block)) = ErrorView generic_message
           \<and> exposed (App (after (catch_block err @ finally_block))) = []
           \<and> bestAny (after (catch_block err @ finally_block)) = JArr []
           \<and> bestGrand (after (catch_block err @ finally_block)) = JArr []
           \<and> lastUpdated (after (catch_block err @ finally_block)) = JNull"
proof -
  have view: "App (after (catch_block err @ finally_block)) = ErrorView generic_message
           \<and> exposed (App (after (catch_block err @ finally_block))) = []
           \<and> bestAny (after (catch_block err @ finally_block)) = JArr []
           \<and> bestGrand (after (catch_block err @ finally_block)) = JArr []
           \<and> lastUpdated (after (catch_block err @ finally_block)) = JNull" for err
    by (simp add: catch_block_def finally_block_def after_def init_def App_def
        generic_message_def)
  have "\<exists>err. fetchData rt evs = Finished (catch_block err @ finally_block)"
  proof (cases "promise_all 3 evs")
    case (AllFulfilled k vs)
    have norej: "s \<noteq> Rejected e" for e
      using promise_all_rejects[OF d _ i, of e] mem AllFulfilled by auto
    then obtain r where r: "s = Fulfilled r" "\<not> ok r" using bad by auto
    have "(i, Fulfilled (vs ! i)) \<in> set evs"
      using promise_all_fulfilled(2)[OF AllFulfilled] i by (auto dest: in_set_takeD)
    then have "Fulfilled (vs ! i) = s" using d mem by (rule_tac eq_key_imp_eq_value)
    then have vi: "\<not> ok (vs ! i)" using r by auto
    obtain r0 r1 r2 where vs: "vs = [r0, r1, r2]"
      using promise_all_length[OF AllFulfilled] by (auto elim: length_3E)
    have "i = 0 \<or> i = 1 \<or> i = 2" using i by arith
    then have "\<not> ok r0 \<or> \<not> ok r1 \<or> \<not> ok r2" using vi vs by auto
    then have "try_block rt vs = ([], Some RequestFailed)" using vs by auto
    then show ?thesis using AllFulfilled by (auto simp: fetchData_def try_catch_finally_def)
  next
    case (FirstRejected k e)
    then show ?thesis by (auto simp: fetchData_def try_catch_finally_def)
  next
    case NeverSettles
    have "s \<noteq> Rejected e" for e
      using promise_all_rejects[OF d _ i, of e] mem NeverSettles by auto
    then have "\<forall>j<3. j \<in> fst ` set evs" using bad by auto
    then show ?thesis using promise_all_settles NeverSettles by blast
  qed
  then show ?thesis using view by blast
qed

theorem failure_exposes_no_data_witness:
  "(\<exists>err. fetchData example_rt
        [(1, Fulfilled \<lparr>ok = False, body = Some (JArr [JNum 1])\<rparr>),
         (0, Fulfilled \<lparr>ok = True, body = Some (JArr [JNum 2])\<rparr>),
         (2, Fulfilled \<lparr>ok = True, body = Some (JArr [])\<rparr>)]
        = Finished (catch_block err @ finally_block)
      \<and> App (after (catch_block err @ finally_block)) = ErrorView generic_message
      \<and> bestAny (after (catch_block err @ finally_block)) = JArr [])
 \<and> (\<exists>err. fetchData example_rt
        [(0, Fulfilled \<lparr>ok = True, body = Some (JArr [JNum 2])\<rparr>),
         (2, Rejected NetworkError)]
        = Finished (catch_block err @ finally_block)
      \<and> App (after (catch_block err @ finally_block)) = ErrorView generic_message
      \<and> bestAny (after (catch_block err @ finally_block)) = JArr [])"
proof -
  let ?E = "[(1::nat, Fulfilled \<lparr>ok = False, body = Some (JArr [JNum 1])\<rparr>),
         (0, Fulfilled \<lparr>ok = True, body = Some (JArr [JNum 2])\<rparr>),
         (2, Fulfilled \<lparr>ok = True, body = Some (JArr [])\<rparr>)]"
  let ?F = "[(0::nat, Fulfilled \<lparr>ok = True, body = Some (JArr [JNum 2])\<rparr>),
         (2, Rejected NetworkError)]"
  have e: "distinct (map fst ?E)"
      "(1, Fulfilled \<lparr>ok = False, body = Some (JArr [JNum 1])\<rparr>) \<in> set ?E" "(1::nat) < 3"
      "(\<exists>e. Fulfilled \<lparr>ok = False, body = Some (JArr [JNum 1])\<rparr> = Rejected e)
        \<or> ((\<exists>r. Fulfilled \<lparr>ok = False, body = Some (JArr [JNum 1])\<rparr> = Fulfilled r \<and> \<not> ok r)
            \<and> (\<forall>j<3. j \<in> fst ` set ?E))"
    by (simp_all add: numeral_3_eq_3 less_Suc_eq)
  have f: "distinct (map fst ?F)" "(2, Rejected NetworkError) \<in> set ?F" "(2::nat) < 3"
      "(\<exists>e. (Rejected NetworkError :: response settled) = Rejected e)
        \<or> ((\<exists>r. Rejected NetworkError = Fulfilled r \<and> \<not> ok r)
            \<and> (\<forall>j<3. j \<in> fst ` set ?F))"
    by simp_all
  show ?thesis
    using failure_exposes_no_data[OF e, of example_rt] failure_exposes_no_data[OF f, of example_rt]
    by blast
qed

section \<open>Full success\<close>

text \<open>
  C3, as the specification states it, promises the ready state, with one slot per endpoint
  holding that endpoint's parsed body, whenever every endpoint answers with a success
  status and valid JSON. In \<^verbatim>\<open>App.js\<close> a history body \<^verbatim>\<open>null\<close> is valid JSON and ends in the
  error view; and with a history body \<^verbatim>\<open>[{"timestamp": "t"}]\<close> the state is ready, but no
  slot holds the history body: \<open>lastUpdated\<close> holds the \<^verbatim>\<open>Date\<close> built from the timestamp.
\<close>

theorem valid_json_not_always_ready:
  "fetchData example_rt
     [(0, Fulfilled \<lparr>ok = True, body = Some (JArr [])\<rparr>),
      (1, Fulfilled \<lparr>ok = True, body = Some (JArr [])\<rparr>),
      (2, Fulfilled \<lparr>ok = True, body = Some JNull\<rparr>)]
     = Finished [SetBestAny (JArr []), SetBestGrand (JArr []), Log TypeError,
                 SetError generic_message, SetLoading False]
   \<and> App (after [SetBestAny (JArr []), SetBestGrand (JArr []), Log TypeError,
                  SetError generic_message, SetLoading False]) = ErrorView generic_message
   \<and> fetchData example_rt
     [(0, Fulfilled \<lparr>ok = True, body = Some (JArr [])\<rparr>),
      (1, Fulfilled \<lparr>ok = True, body = Some (JArr [])\<rparr>),
      (2, Fulfilled \<lparr>ok = True, body = Some (JArr [JObj [(''timestamp'', JStr ''t'')]])\<rparr>)]
     = Finished [SetBestAny (JArr []), SetBestGrand (JArr []),
                 SetLastUpdated (JDate (JStr ''t'')), SetLoading False]
   \<and> after [SetBestAny (JArr []), SetBestGrand (JArr []),
             SetLastUpdated (JDate (JStr ''t'')), SetLoading False]
     = \<lparr>bestAny = JArr [], bestGrand = JArr [], lastUpdated = JDate (JStr ''t''),
        loading = False, error = None\<rparr>"
  by (simp add: fetchData_def promise_all_def numeral_3_eq_3 all_filled_def
      try_catch_finally_eq last_updated_of_def new_date_def after_def init_def App_def
      generic_message_def)

text \<open>
  C3, amended: let every endpoint answer with a success status and a body that is valid
  JSON, each promise settling once. In \<^verbatim>\<open>App.js\<close>, if deriving the last-updated value from
  the history body (lines 34 to 36) does not throw, the run finishes in the ready state:
  \<open>loading\<close> is false, \<open>error\<close> is null, \<open>bestAny\<close> and \<open>bestGrand\<close> hold the parsed bodies of
  their endpoints, and \<open>lastUpdated\<close> holds the \<^verbatim>\<open>Date\<close> built from the last timestamp, or
  stays null when there is none. In the two-table version of \<^verbatim>\<open>part_001\<close> the run finishes in
  the ready state and each of the two slots holds the parsed body of its endpoint. In both
  versions the view is then the ready page built from these slots when building the two
  tables does not throw, and that throw otherwise.
\<close>

theorem all_ok_is_ready:
  "(distinct (map fst evs)
     \<and> (0, Fulfilled \<lparr>ok = True, body = Some anyData\<rparr>) \<in> set evs
     \<and> (1, Fulfilled \<lparr>ok = True, body = Some grandData\<rparr>) \<in> set evs
     \<and> (2, Fulfilled \<lparr>ok = True, body = Some historyData\<rparr>) \<in> set evs
     \<and> last_updated_of rt historyData = Inr date
    \<longrightarrow> (\<exists>acts. fetchData rt evs = Finished acts
          \<and> after acts = \<lparr>bestAny = anyData, bestGrand = grandData,
               lastUpdated = (case date of None \<Rightarrow> JNull | Some d \<Rightarrow> d),
               loading = False, error = None\<rparr>
          \<and> (tables_fault anyData grandData = None \<longrightarrow>
               App (after acts) =
                 ReadyView ((case date of None \<Rightarrow> [] | Some d \<Rightarrow> [Updated d])
                            @ [AnyTable anyData, GrandTable grandData]))
          \<and> (\<forall>e. tables_fault anyData grandData = Some e \<longrightarrow>
               App (after acts) = Throws e)))
 \<and> (distinct (map fst evs')
     \<and> (0, Fulfilled \<lparr>ok = True, body = Some anyData'\<rparr>) \<in> set evs'
     \<and> (1, Fulfilled \<lparr>ok = True, body = Some grandData'\<rparr>) \<in> set evs'
    \<longrightarrow> (\<exists>acts. fetchData_pair evs' = Finished acts
          \<and> after_pair acts = \<lparr>bestAny_pair = anyData', bestGrand_pair = grandData',
               loading_pair = False, error_pair = None\<rparr>
          \<and> (tables_fault anyData' grandData' = None \<longrightarrow>
               App_pair (after_pair acts) =
                 ReadyView [AnyTable anyData', GrandTable grandData'])
          \<and> (\<forall>e. tables_fault anyData' grandData' = Some e \<longrightarrow>
               App_pair (after_pair acts) = Throws e)))"
proof (intro conjI impI)
  assume a: "distinct (map fst evs)
     \<and> (0, Fulfilled \<lparr>ok = True, body = Some anyData\<rparr>) \<in> set evs
     \<and> (1, Fulfilled \<lparr>ok = True, body = Some grandData\<rparr>) \<in> set evs
     \<and> (2, Fulfilled \<lparr>ok = True, body = Some historyData\<rparr>) \<in> set evs
     \<and> last_updated_of rt historyData = Inr date"
  then have run: "fetchData rt evs =
     Finished (try_catch_finally (case date of
          None \<Rightarrow> ([SetBestAny anyData, SetBestGrand grandData], None)
        | Some d \<Rightarrow> ([SetBestAny anyData, SetBestGrand grandData, SetLastUpdated d], None)))"
    using history_success[of evs anyData grandData historyData rt] by simp
  have header: "d = JDate t \<Longrightarrow> truthy d \<and> guarded d bs = bs" for d t bs
    by (simp add: guarded_def)
  show "\<exists>acts. fetchData rt evs = Finished acts
          \<and> after acts = \<lparr>bestAny = anyData, bestGrand = grandData,
               lastUpdated = (case date of None \<Rightarrow> JNull | Some d \<Rightarrow> d),
               loading = False, error = None\<rparr>
          \<and> (tables_fault anyData grandData = None \<longrightarrow>
               App (after acts) =
                 ReadyView ((case date of None \<Rightarrow> [] | Some d \<Rightarrow> [Updated d])
                            @ [AnyTable anyData, GrandTable grandData]))
          \<and> (\<forall>e. tables_fault anyData grandData = Some e \<longrightarrow>
               App (after acts) = Throws e)"
  proof (cases date)
    case None
    then show ?thesis using run
      by (simp add: try_catch_finally_eq after_def init_def App_def ready_def guarded_def)
  next
    case (Some d)
    then obtain t where "d = JDate t" using a last_updated_of_Some by blast
    then show ?thesis using run Some
      by (simp add: try_catch_finally_eq after_def init_def App_def ready_def guarded_def)
  qed
next
  assume a: "distinct (map fst evs')
     \<and> (0, Fulfilled \<lparr>ok = True, body = Some anyData'\<rparr>) \<in> set evs'
     \<and> (1, Fulfilled \<lparr>ok = True, body = Some grandData'\<rparr>) \<in> set evs'"
  then obtain k where "promise_all 2 evs' = AllFulfilled k
      [\<lparr>ok = True, body = Some anyData'\<rparr>, \<lparr>ok = True, body = Some grandData'\<rparr>]"
    using two_fulfilled[of evs'] by blast
  then show "\<exists>acts. fetchData_pair evs' = Finished acts
          \<and> after_pair acts = \<lparr>bestAny_pair = anyData', bestGrand_pair = grandData',
               loading_pair = False, error_pair = None\<rparr>
          \<and> (tables_fault anyData' grandData' = None \<longrightarrow>
               App_pair (after_pair acts) =
                 ReadyView [AnyTable anyData', GrandTable grandData'])
          \<and> (\<forall>e. tables_fault anyData' grandData' = Some e \<longrightarrow>
               App_pair (after_pair acts) = Throws e)"
    by (simp add: fetchData_pair_def try_catch_finally_eq after_pair_def init_pair_def
        App_pair_def ready_pair_def)
qed

theorem all_ok_is_ready_witness:
  "(\<exists>acts. fetchData example_rt
        [(2, Fulfilled \<lparr>ok = True, body = Some (JArr [JObj [(''timestamp'', JStr ''t'')]])\<rparr>),
         (0, Fulfilled \<lparr>ok = True, body = Some
            (JArr [JObj [(''name'', JStr ''A''), (''remaining_prizes'', JNum 5),
                         (''total_prizes'', JNum 10), (''remaining_ratio'', JNum (1 / 2))]])\<rparr>),
         (1, Fulfilled \<lparr>ok = True, body = Some
            (JArr [JObj [(''name'', JStr ''A''), (''grand_prizes_remaining'', JNum 1)]])\<rparr>)]
        = Finished acts
      \<and> lastUpdated (after acts) = JDate (JStr ''t'')
      \<and> App (after acts) = ReadyView [Updated (JDate (JStr ''t'')),
           AnyTable (JArr [JObj [(''name'', JStr ''A''), (''remaining_prizes'', JNum 5),
                         (''total_prizes'', JNum 10), (''remaining_ratio'', JNum (1 / 2))]]),
           GrandTable (JArr [JObj [(''name'', JStr ''A''),
                                   (''grand_prizes_remaining'', JNum 1)]])])
 \<and> (\<exists>acts. fetchData_pair
        [(1, Fulfilled \<lparr>ok = True, body = Some
            (JArr [JObj [(''name'', JStr ''A''), (''grand_prizes_remaining'', JNum 1)]])\<rparr>),
         (0, Fulfilled \<lparr>ok = True, body = Some
            (JArr [JObj [(''name'', JStr ''A''), (''remaining_prizes'', JNum 5),
                         (''total_prizes'', JNum 10), (''remaining_ratio'', JNum (1 / 2))]])\<rparr>)]
        = Finished acts
      \<and> App_pair (after_pair acts) = ReadyView
          [AnyTable (JArr [JObj [(''name'', JStr ''A''), (''remaining_prizes'', JNum 5),
                         (''total_prizes'', JNum 10), (''remaining_ratio'', JNum (1 / 2))]]),
           GrandTable (JArr [JObj [(''name'', JStr ''A''),
                                   (''grand_prizes_remaining'', JNum 1)]])])"
proof -
  let ?a = "JArr [JObj [(''name'', JStr ''A''), (''remaining_prizes'', JNum 5),
                         (''total_prizes'', JNum 10), (''remaining_ratio'', JNum (1 / 2))]]"
  let ?g = "JArr [JObj [(''name'', JStr ''A''), (''grand_prizes_remaining'', JNum 1)]]"
  let ?h = "JArr [JObj [(''timestamp'', JStr ''t'')]]"
  let ?ok = "\<lambda>b. Fulfilled \<lparr>ok = True, body = Some b\<rparr>"
  let ?E = "[(2::nat, ?ok ?h), (0, ?ok ?a), (1, ?ok ?g)]"
  let ?E' = "[(1::nat, ?ok ?g), (0, ?ok ?a)]"
  have h: "last_updated_of example_rt ?h = Inr (Some (JDate (JStr ''t'')))"
    by (simp add: last_updated_of_def new_date_def)
  have e: "distinct (map fst ?E) \<and> (0, ?ok ?a) \<in> set ?E \<and> (1, ?ok ?g) \<in> set ?E
      \<and> (2, ?ok ?h) \<in> set ?E" by simp
  have e': "distinct (map fst ?E') \<and> (0, ?ok ?a) \<in> set ?E' \<and> (1, ?ok ?g) \<in> set ?E'"
    by simp
  show ?thesis
    using all_ok_is_ready[of ?E ?a ?g ?h example_rt "Some (JDate (JStr ''t''))" ?E' ?a ?g]
      h e e' example_tables
    by (auto simp del: set_simps)
qed

section \<open>Leaving the loading state\<close>

text \<open>
  C4: when every request of an activation settles, \<open>fetchData\<close> finishes, and its calls are
  a list without any \<^verbatim>\<open>setLoading\<close> followed by the finalizer's \<^verbatim>\<open>setLoading(false)\<close>. The
  view is the loading view before each of these calls and is not the loading view after the
  last one: the loading state is left once, by the finalizer, on the success and on the
  failure path alike, and nothing sets it again. This holds for \<^verbatim>\<open>App.js\<close> and for the
  recommendation version.
\<close>

theorem leaves_loading_once:
  "((\<forall>i<3. i \<in> fst ` set evs) \<longrightarrow>
      (\<exists>pre. fetchData rt evs = Finished (pre @ finally_block)
         \<and> (\<forall>a\<in>set pre. a \<notin> range SetLoading)
         \<and> (\<forall>k<length (pre @ finally_block).
               App (after (take k (pre @ finally_block))) = LoadingView)
         \<and> App (after (pre @ finally_block)) \<noteq> LoadingView))
 \<and> ((\<forall>i<2. i \<in> fst ` set evs') \<longrightarrow>
      (\<exists>pre. fetchData_rec evs' = Finished (pre @ finally_block)
         \<and> (\<forall>a\<in>set pre. a \<notin> range SetLoading)
         \<and> (\<forall>k<length (pre @ finally_block).
               App_rec (after_rec (take k (pre @ finally_block))) = LoadingView)
         \<and> App_rec (after_rec (pre @ finally_block)) \<noteq> LoadingView))"
proof (intro conjI impI)
  assume "\<forall>i<3. i \<in> fst ` set evs"
  then obtain acts where run: "fetchData rt evs = Finished acts"
    using fetchData_finishes by blast
  then obtain pre where pre: "acts = pre @ finally_block" "\<forall>a\<in>set pre. a \<notin> range SetLoading"
    using fetchData_finalizer by blast
  have "\<forall>k<length (pre @ finally_block).
          App (after (take k (pre @ finally_block))) = LoadingView"
    using loading_until_finalizer(1)[OF pre(2)] by (simp add: App_def)
  moreover have "App (after (pre @ finally_block)) \<noteq> LoadingView"
    using loading_until_finalizer(2)[OF pre(2)]
    by (simp add: App_def ready_not_loading split: option.splits)
  ultimately show "\<exists>pre. fetchData rt evs = Finished (pre @ finally_block)
         \<and> (\<forall>a\<in>set pre. a \<notin> range SetLoading)
         \<and> (\<forall>k<length (pre @ finally_block).
               App (after (take k (pre @ finally_block))) = LoadingView)
         \<and> App (after (pre @ finally_block)) \<noteq> LoadingView"
    using run pre by blast
next
  assume "\<forall>i<2. i \<in> fst ` set evs'"
  then obtain acts where run: "fetchData_rec evs' = Finished acts"
    using fetchData_rec_finishes by blast
  then obtain pre where pre: "acts = pre @ finally_block" "\<forall>a\<in>set pre. a \<notin> range SetLoading"
    using fetchData_rec_finalizer by blast
  have "\<forall>k<length (pre @ finally_block).
          App_rec (after_rec (take k (pre @ finally_block))) = LoadingView"
    using loading_rec_until_finalizer(1)[OF pre(2)] by (simp add: App_rec_def)
  moreover have "App_rec (after_rec (pre @ finally_block)) \<noteq> LoadingView"
    using loading_rec_until_finalizer(2)[OF pre(2)]
    by (simp add: App_rec_def ready_not_loading split: option.splits)
  ultimately show "\<exists>pre. fetchData_rec evs' = Finished (pre @ finally_block)
         \<and> (\<forall>a\<in>set pre. a \<notin> range SetLoading)
         \<and> (\<forall>k<length (pre @ finally_block).
               App_rec (after_rec (take k (pre @ finally_block))) = LoadingView)
         \<and> App_rec (after_rec (pre @ finally_block)) \<noteq> LoadingView"
    using run pre by blast
qed

theorem leaves_loading_once_witness:
  "(\<exists>pre. fetchData example_rt
        [(2, Fulfilled \<lparr>ok = True, body = Some (JArr [])\<rparr>),
         (0, Fulfilled \<lparr>ok = True, body = Some (JArr [])\<rparr>),
         (1, Fulfilled \<lparr>ok = True, body = Some (JArr [])\<rparr>)] = Finished (pre @ finally_block)
      \<and> App (after (pre @ finally_block)) \<noteq> LoadingView)
 \<and> (\<exists>pre. fetchData_rec
        [(1, Fulfilled \<lparr>ok = False, body = None\<rparr>),
         (0, Rejected NetworkError)] = Finished (pre @ finally_block)
      \<and> App_rec (after_rec (pre @ finally_block)) \<noteq> LoadingView)"
proof -
  let ?E = "[(2::nat, Fulfilled \<lparr>ok = True, body = Some (JArr [])\<rparr>),
         (0, Fulfilled \<lparr>ok = True, body = Some (JArr [])\<rparr>),
         (1, Fulfilled \<lparr>ok = True, body = Some (JArr [])\<rparr>)]"
  let ?E' = "[(1::nat, Fulfilled \<lparr>ok = False, body = None\<rparr>), (0, Rejected NetworkError)]"
  have e: "\<forall>i<3. i \<in> fst ` set ?E" by (simp add: numeral_3_eq_3 less_Suc_eq)
  have e': "\<forall>i<2. i \<in> fst ` set ?E'" by (simp add: numeral_2_eq_2 less_Suc_eq)
  show ?thesis using leaves_loading_once[of ?E example_rt ?E'] e e' by blast
qed

section \<open>The last-updated instant\<close>

text \<open>
  C5: in an activation of \<^verbatim>\<open>App.js\<close> where the three responses are ok, the history body is
  an array \<open>hs\<close>, and the final view is the ready view: if \<open>hs\<close> is empty, \<^verbatim>\<open>setLastUpdated\<close>
  is never called and \<open>lastUpdated\<close> is still null; if \<open>hs\<close> is not empty, \<open>lastUpdated\<close> is the
  \<^verbatim>\<open>Date\<close> built from the \<^verbatim>\<open>timestamp\<close> member of its last element. For
  \<^verbatim>\<open>[{timestamp: t1}, {timestamp: t2}]\<close> that is the \<^verbatim>\<open>Date\<close> of \<open>t2\<close>.
\<close>

theorem last_updated_is_final_timestamp:
  assumes "distinct (map fst evs)"
    and "(0, Fulfilled \<lparr>ok = True, body = Some anyData\<rparr>) \<in> set evs"
    and "(1, Fulfilled \<lparr>ok = True, body = Some grandData\<rparr>) \<in> set evs"
    and "(2, Fulfilled \<lparr>ok = True, body = Some (JArr hs)\<rparr>) \<in> set evs"
    and "fetchData rt evs = Finished acts"
    and "App (after acts) = ReadyView bs"
  shows "(hs = [] \<longrightarrow> lastUpdated (after acts) = JNull
            \<and> (\<forall>a\<in>set acts. a \<notin> range SetLastUpdated))
       \<and> (hs \<noteq> [] \<longrightarrow> (\<exists>latest. get_timestamp (last hs) = Inr latest
            \<and> lastUpdated (after acts) = JDate latest))
       \<and> (hs = [JObj [(''timestamp'', t1)], JObj [(''timestamp'', t2)]]
            \<longrightarrow> lastUpdated (after acts) = JDate t2)"
proof -
  note run = history_success[OF assms(1-4), of rt, unfolded assms(5)]
  have no_error: "error (after acts) = None"
    using final_view[OF assms(5)] assms(6) by auto
  have empty: "lastUpdated (after acts) = JNull \<and> (\<forall>a\<in>set acts. a \<notin> range SetLastUpdated)"
    if "hs = []"
    using run that by (auto simp: try_catch_finally_eq last_updated_of_def after_def init_def)
  have nonempty: "\<exists>latest. get_timestamp (last hs) = Inr latest
            \<and> lastUpdated (after acts) = JDate latest" if ne: "hs \<noteq> []"
  proof (cases "last_updated_of rt (JArr hs)")
    case (Inl e)
    then have "error (after acts) = Some generic_message"
      using run by (simp add: try_catch_finally_eq after_def init_def)
    then show ?thesis using no_error by simp
  next
    case (Inr date)
    then obtain d where d: "date = Some d"
      using ne
      by (cases date; cases "get_timestamp (hs ! (length hs - 1))")
         (auto simp: last_updated_of_def new_date_def split: sum.splits option.splits if_splits)
    then obtain t where t: "d = JDate t" "history_latest rt (JArr hs) = Inr (Some t)"
      using Inr last_updated_of_Some by blast
    then have "get_timestamp (last hs) = Inr t"
      using ne by (cases "get_timestamp (last hs)") (auto simp: last_conv_nth)
    moreover have "lastUpdated (after acts) = JDate t"
      using run Inr d t(1) by (simp add: try_catch_finally_eq after_def init_def)
    ultimately show ?thesis by blast
  qed
  have "lastUpdated (after acts) = JDate t2"
    if "hs = [JObj [(''timestamp'', t1)], JObj [(''timestamp'', t2)]]"
    using nonempty that by auto
  then show ?thesis using empty nonempty by blast
qed

theorem last_updated_is_final_timestamp_witness:
  "lastUpdated (after [SetBestAny (JArr []), SetBestGrand (JArr []),
       SetLastUpdated (JDate (JStr ''2024-05-02'')), SetLoading False])
     = JDate (JStr ''2024-05-02'')
 \<and> lastUpdated (after [SetBestAny (JArr []), SetBestGrand (JArr []), SetLoading False]) = JNull"
proof -
  let ?ok = "\<lambda>b. Fulfilled \<lparr>ok = True, body = Some b\<rparr>"
  let ?hs = "[JObj [(''timestamp'', JStr ''2024-05-01'')],
              JObj [(''timestamp'', JStr ''2024-05-02'')]]"
  let ?E = "[(0::nat, ?ok (JArr [])), (1, ?ok (JArr [])), (2, ?ok (JArr ?hs))]"
  let ?A = "[SetBestAny (JArr []), SetBestGrand (JArr []),
       SetLastUpdated (JDate (JStr ''2024-05-02'')), SetLoading False]"
  let ?F = "[(0::nat, ?ok (JArr [])), (1, ?ok (JArr [])), (2, ?ok (JArr []))]"
  let ?B = "[SetBestAny (JArr []), SetBestGrand (JArr []), SetLoading False]"
  have run: "fetchData example_rt ?E = Finished ?A" by (simp add: run_simps)
  have view: "App (after ?A) = ReadyView [Updated (JDate (JStr ''2024-05-02'')),
      AnyTable (JArr []), GrandTable (JArr [])]"
    by (simp add: after_def init_def App_def ready_def guarded_def tables_fault_def
        map_throws_def row_children_def)
  have run0: "fetchData example_rt ?F = Finished ?B" by (simp add: run_simps)
  have view0: "App (after ?B) = ReadyView [AnyTable (JArr []), GrandTable (JArr [])]"
    by (simp add: after_def init_def App_def ready_def guarded_def tables_fault_def
        map_throws_def row_children_def)
  have "lastUpdated (after ?A) = JDate (JStr ''2024-05-02'')"
    using last_updated_is_final_timestamp[of ?E "JArr []" "JArr []" ?hs example_rt ?A _
        "JStr ''2024-05-01''" "JStr ''2024-05-02''", OF _ _ _ _ run view]
    by simp
  moreover have "lastUpdated (after ?B) = JNull"
    using last_updated_is_final_timestamp[of ?F "JArr []" "JArr []" "[]" example_rt ?B,
        OF _ _ _ _ run0 view0]
    by simp
  ultimately show ?thesis by blast
qed

section \<open>One error message\<close>





section \<open>The three views\<close>




section \<open>The percentage cell\<close>

text \<open>
  C8: for a ticket whose \<^verbatim>\<open>remaining_ratio\<close> is \<^verbatim>\<open>0.1234\<close> the cell of the column
  ``Remaining %'' shows \<^verbatim>\<open>12.34%\<close>: the ratio times 100, fixed to two decimals, followed by
  a percent sign. The number read from \<^verbatim>\<open>0.1234\<close> is the double \<open>8891907104280307 / 2 ^ 56\<close>.
\<close>

theorem remaining_pct_of_1234:
  "binary64 (1234 / 10000) = Some (8891907104280307 / 72057594037927936)
 \<and> remaining_pct (8891907104280307 / 72057594037927936) = Some ''12.34%''"
proof -
  have "remaining_pct (8891907104280307 / 72057594037927936) = Some ''12.34%''"
    unfolding remaining_pct_def double_of_product option.case toFixed_product by simp
  then show ?thesis using double_of_1234 by simp
qed

section \<open>Slot writes before an error\<close>

text \<open>
  C9: there are failing activations in which slots have been written before the error is
  raised. When the three responses are ok and their bodies parse, but reading the last
  timestamp of the history body throws (a null body, for one), \<^verbatim>\<open>setBestAny\<close> and
  \<^verbatim>\<open>setBestGrand\<close> have run, the two slots hold the fetched bodies, and the final view is
  the error view. The view shows none of it only because \<open>App\<close> tests \<open>error\<close> before it
  builds the tables: the same state with \<open>error\<close> cleared renders the page from both slots,
  which shows the two tables, or throws what building the tables from these two bodies
  throws.
\<close>

theorem slots_written_before_error:
  assumes "distinct (map fst evs)"
    and "(0, Fulfilled \<lparr>ok = True, body = Some anyData\<rparr>) \<in> set evs"
    and "(1, Fulfilled \<lparr>ok = True, body = Some grandData\<rparr>) \<in> set evs"
    and "(2, Fulfilled \<lparr>ok = True, body = Some historyData\<rparr>) \<in> set evs"
    and "history_latest rt historyData = Inl err"
  shows "\<exists>acts. fetchData rt evs = Finished acts
           \<and> acts = [SetBestAny anyData, SetBestGrand grandData, Log err,
                     SetError generic_message, SetLoading False]
           \<and> bestAny (after acts) = anyData \<and> bestGrand (after acts) = grandData
           \<and> App (after acts) = ErrorView generic_message
           \<and> exposed (App (after acts)) = []
           \<and> App ((after acts)\<lparr>error := None\<rparr>)
               = (case tables_fault anyData grandData of
                    None \<Rightarrow> ReadyView [AnyTable anyData, GrandTable grandData]
                  | Some e \<Rightarrow> Throws e)"
proof -
  obtain k where "promise_all 3 evs = AllFulfilled k
      [\<lparr>ok = True, body = Some anyData\<rparr>, \<lparr>ok = True, body = Some grandData\<rparr>,
       \<lparr>ok = True, body = Some historyData\<rparr>]"
    using three_fulfilled[OF assms(1-4)] by blast
  then show ?thesis using assms(5)
    by (simp add: fetchData_def try_catch_finally_def catch_block_def finally_block_def after_def
        init_def App_def ready_def guarded_def generic_message_def last_updated_of_def
        split: option.splits)
qed

theorem slots_written_before_error_witness:
  "\<exists>acts. fetchData example_rt
      [(0, Fulfilled \<lparr>ok = True, body = Some
          (JArr [JObj [(''name'', JStr ''A''), (''remaining_prizes'', JNum 5),
                       (''total_prizes'', JNum 10), (''remaining_ratio'', JNum (1 / 2))]])\<rparr>),
       (1, Fulfilled \<lparr>ok = True, body = Some
          (JArr [JObj [(''name'', JStr ''A''), (''grand_prizes_remaining'', JNum 1)]])\<rparr>),
       (2, Fulfilled \<lparr>ok = True, body = Some JNull\<rparr>)] = Finished acts
     \<and> bestAny (after acts)
         = JArr [JObj [(''name'', JStr ''A''), (''remaining_prizes'', JNum 5),
                       (''total_prizes'', JNum 10), (''remaining_ratio'', JNum (1 / 2))]]
     \<and> bestGrand (after acts)
         = JArr [JObj [(''name'', JStr ''A''), (''grand_prizes_remaining'', JNum 1)]]
     \<and> App (after acts) = ErrorView generic_message
     \<and> App ((after acts)\<lparr>error := None\<rparr>)
         = ReadyView
             [AnyTable (JArr [JObj [(''name'', JStr ''A''), (''remaining_prizes'', JNum 5),
                       (''total_prizes'', JNum 10), (''remaining_ratio'', JNum (1 / 2))]]),
              GrandTable
                (JArr [JObj [(''name'', JStr ''A''), (''grand_prizes_remaining'', JNum 1)]])]"
proof -
  let ?a = "JArr [JObj [(''name'', JStr ''A''), (''remaining_prizes'', JNum 5),
                        (''total_prizes'', JNum 10), (''remaining_ratio'', JNum (1 / 2))]]"
  let ?g = "JArr [JObj [(''name'', JStr ''A''), (''grand_prizes_remaining'', JNum 1)]]"
  let ?E = "[(0::nat, Fulfilled \<lparr>ok = True, body = Some ?a\<rparr>),
             (1, Fulfilled \<lparr>ok = True, body = Some ?g\<rparr>),
             (2, Fulfilled \<lparr>ok = True, body = Some JNull\<rparr>)]"
  have h: "history_latest example_rt JNull = Inl TypeError" by simp
  have d: "distinct (map fst ?E)" by simp
  have m: "(0, Fulfilled \<lparr>ok = True, body = Some ?a\<rparr>) \<in> set ?E"
      "(1, Fulfilled \<lparr>ok = True, body = Some ?g\<rparr>) \<in> set ?E"
      "(2, Fulfilled \<lparr>ok = True, body = Some JNull\<rparr>) \<in> set ?E"
    by simp_all
  show ?thesis
    using slots_written_before_error[OF d m h]
    unfolding example_tables option.case by blast
qed

section \<open>A null recommendation\<close>




end
